theory Spec2Isabelle
  imports Complex_Main "HOL-Library.AList"
begin

section \<open>Errors\<close>

text \<open>
  Every exception the modelled Python code can raise is a value of this type; a function
  that can raise returns \<open>error + 'a\<close>, with \<open>Inl\<close> the exception.
\<close>

datatype error =
    AssertionError string
  | AttributeError
  | ValueError
  | KeyError string
  | TypeError
  | IndexError
  | ZeroDivisionError
  | ColumnNotFoundError string
  | InvalidOperationError
  | NotADirectoryError
  | OverflowError
  | SchemaError

definition bind :: "error + 'a \<Rightarrow> ('a \<Rightarrow> error + 'b) \<Rightarrow> error + 'b" where
  "bind m f = (case m of Inl e \<Rightarrow> Inl e | Inr x \<Rightarrow> f x)"

section \<open>Regular expressions as used by \<open>ocr_functions.py\<close>\<close>

text \<open>
  A Python \<open>str\<close> is modelled as a \<open>string\<close> with one \<open>char\<close> per code point, so the
  model covers the code points below 256. The character classes are those of Python's
  \<open>re\<close> on \<open>str\<close> patterns, restricted to that range: \<open>\d\<close> is \<open>0\<close> to \<open>9\<close>, \<open>\s\<close> is the
  Unicode white space (9 to 13, 28 to 32, 133 and 160), and \<open>.\<close> is everything but the
  line feed.
\<close>

definition is_digit :: "char \<Rightarrow> bool" where
  "is_digit c = (48 \<le> (of_char c :: nat) \<and> (of_char c :: nat) \<le> 57)"

definition is_space :: "char \<Rightarrow> bool" where
  "is_space c = (let n = (of_char c :: nat) in
     (9 \<le> n \<and> n \<le> 13) \<or> (28 \<le> n \<and> n \<le> 32) \<or> n = 133 \<or> n = 160)"

definition is_alpha :: "char \<Rightarrow> bool" where
  "is_alpha c = (let n = (of_char c :: nat) in
     (65 \<le> n \<and> n \<le> 90) \<or> (97 \<le> n \<and> n \<le> 122))"

datatype cls = Digit | NonDigit | Space | NonSpace | AnyChar | Alpha | OneOf string

fun in_cls :: "cls \<Rightarrow> char \<Rightarrow> bool" where
  "in_cls Digit c = is_digit c"
| "in_cls NonDigit c = (\<not> is_digit c)"
| "in_cls Space c = is_space c"
| "in_cls NonSpace c = (\<not> is_space c)"
| "in_cls AnyChar c = (c \<noteq> CHR 0x0A)"
| "in_cls Alpha c = is_alpha c"
| "in_cls (OneOf cs) c = (c \<in> set cs)"

text \<open>
  Every quantified piece of the patterns in the source is a single character class, and no
  group is nested or quantified. \<open>Rep c lo hi\<close> is the greedy repetition \<open>c{lo,hi}\<close>
  (\<open>hi = None\<close>: unbounded), so \<open>c*\<close> is \<open>Rep c 0 None\<close>, \<open>c+\<close> is \<open>Rep c 1 None\<close>, and a
  single character is \<open>Rep c 1 (Some 1)\<close>. An item of a pattern is a capture group around
  a sequence of atoms, or an atom outside any group.
\<close>

datatype atom = Rep cls nat "nat option"

datatype item = Grp "atom list" | Plain atom

text \<open>
  Backtracking is a list of successes in priority order: \<open>reps\<close> offers the longest run
  first and gives characters back one at a time, and the sequence operators try the
  continuations of each alternative in order. The match \<open>re\<close> reports is the head of the
  list.
\<close>

definition reps :: "cls \<Rightarrow> nat \<Rightarrow> nat option \<Rightarrow> string \<Rightarrow> (string \<times> string) list" where
  "reps c lo hi s =
     (let run = length (takeWhile (in_cls c) s);
          top = (case hi of None \<Rightarrow> run | Some h \<Rightarrow> min h run)
      in map (\<lambda>k. (take k s, drop k s)) (rev [lo ..< Suc top]))"

fun match_atoms :: "atom list \<Rightarrow> string \<Rightarrow> (string \<times> string) list" where
  "match_atoms [] s = [([], s)]"
| "match_atoms (Rep c lo hi # as) s =
     concat (map (\<lambda>(t, r). map (\<lambda>(u, r'). (t @ u, r')) (match_atoms as r)) (reps c lo hi s))"

fun match_items :: "item list \<Rightarrow> string \<Rightarrow> (string list \<times> string) list" where
  "match_items [] s = [([], s)]"
| "match_items (Grp as # is) s =
     concat (map (\<lambda>(t, r). map (\<lambda>(gs, r'). (t # gs, r')) (match_items is r)) (match_atoms as s))"
| "match_items (Plain a # is) s =
     concat (map (\<lambda>(t, r). match_items is r) (match_atoms [a] s))"

text \<open>
  \<open>pattern.search(s)\<close>: the first start position, from the left and up to the end of the
  string, at which the pattern matches; the result is \<open>groups()\<close> of the match, \<open>None\<close>
  when there is none.
\<close>

fun search :: "item list \<Rightarrow> string \<Rightarrow> string list option" where
  "search p [] = (case match_items p [] of [] \<Rightarrow> None | (gs, r) # ms \<Rightarrow> Some gs)"
| "search p (c # cs) =
     (case match_items p (c # cs) of [] \<Rightarrow> search p cs | (gs, r) # ms \<Rightarrow> Some gs)"

section \<open>Number conversions\<close>

fun digits_val :: "string \<Rightarrow> nat \<Rightarrow> nat" where
  "digits_val [] acc = acc"
| "digits_val (c # cs) acc = digits_val cs (10 * acc + ((of_char c :: nat) - 48))"

text \<open>
  \<open>int(s)\<close> and \<open>float(s)\<close> on the strings the parsers build: a run of digits, and two
  runs of digits around a point. On those strings neither raises; every other string is
  reported as \<open>ValueError\<close> here (Python accepts some of them, but no caller in the source
  can pass one). Floats are modelled as reals: \<open>py_float\<close> is the exact decimal value, not
  its rounding to a double.
\<close>

definition py_int :: "string \<Rightarrow> error + int" where
  "py_int s = (if s \<noteq> [] \<and> list_all is_digit s then Inr (int (digits_val s 0)) else Inl ValueError)"

definition decimal :: "string \<Rightarrow> string \<Rightarrow> real" where
  \<comment> \<open>the value of the decimal numeral \<open>w.f\<close>\<close>
  "decimal w f = real (digits_val w 0) + real (digits_val f 0) / 10 ^ length f"

definition py_float :: "string \<Rightarrow> error + real" where
  "py_float s =
     (let w = takeWhile (\<lambda>c. c \<noteq> CHR ''.'') s; f = drop (Suc (length w)) s
      in if w \<noteq> [] \<and> list_all is_digit w \<and> f \<noteq> [] \<and> list_all is_digit f \<and> length w < length s
         then Inr (decimal w f)
         else Inl ValueError)"

section \<open>Text parsers\<close>

record coords =
  latitude :: real
  longitude :: real

record speed_rec =
  speed :: int
  speed_units :: string

definition star :: "cls \<Rightarrow> atom" where
  "star c = Rep c 0 None"

definition plus :: "cls \<Rightarrow> atom" where
  "plus c = Rep c 1 None"

definition lit :: "char \<Rightarrow> atom" where
  "lit c = Rep (OneOf [c]) 1 (Some 1)"

definition exactly :: "cls \<Rightarrow> nat \<Rightarrow> atom" where
  "exactly c n = Rep c n (Some n)"

definition regex_coord_pattern :: "item list" where
  \<comment> \<open>\<^verbatim>\<open>([NS])\D*(\d+)(\s*\.\s*)(\d+)\s*([EW])\D*(\d+)(\s*\.\s*)(\d+)\<close>\<close>
  "regex_coord_pattern =
     [Grp [Rep (OneOf ''NS'') 1 (Some 1)], Plain (star NonDigit), Grp [plus Digit],
      Grp [star Space, lit CHR ''.'', star Space], Grp [plus Digit], Plain (star Space),
      Grp [Rep (OneOf ''EW'') 1 (Some 1)], Plain (star NonDigit), Grp [plus Digit],
      Grp [star Space, lit CHR ''.'', star Space], Grp [plus Digit]]"

definition text_to_coordinates :: "string \<Rightarrow> error + coords" where
  "text_to_coordinates coord_string =
     (case search regex_coord_pattern coord_string of
        None \<Rightarrow> Inr \<lparr>latitude = 0, longitude = 0\<rparr>
      | Some [lat_dir, lat_whole_number, lat_decimal, lat_float_number,
              lon_dir, lon_whole_number, lon_decimal, lon_float_number] \<Rightarrow>
          bind (py_float (lat_whole_number @ ''.'' @ lat_float_number)) (\<lambda>lat.
          bind (py_float (lon_whole_number @ ''.'' @ lon_float_number)) (\<lambda>lon.
          Inr \<lparr>latitude = lat * (if lat_dir = ''N'' then 1 else - 1),
               longitude = lon * (if lon_dir = ''E'' then 1 else - 1)\<rparr>))
      | Some _ \<Rightarrow> Inl ValueError)"

definition regex_timestamp_pattern :: "item list" where
  \<comment> \<open>\<^verbatim>\<open>(\d{2})\D*(\d{2})\D*(\d{4})\s*(\d{2})\D*(\d{2})\s*\D*(\d{2})\<close>\<close>
  "regex_timestamp_pattern =
     [Grp [exactly Digit 2], Plain (star NonDigit), Grp [exactly Digit 2], Plain (star NonDigit),
      Grp [exactly Digit 4], Plain (star Space), Grp [exactly Digit 2], Plain (star NonDigit),
      Grp [exactly Digit 2], Plain (star Space), Plain (star NonDigit), Grp [exactly Digit 2]]"

definition text_to_timestamp :: "string \<Rightarrow> error + string" where
  "text_to_timestamp timestamp_string =
     (case search regex_timestamp_pattern timestamp_string of
        None \<Rightarrow> Inr timestamp_string
      | Some [day, month, year, hour, minute, second] \<Rightarrow>
          Inr (day @ ''-'' @ month @ ''-'' @ year @ '' '' @ hour @ '':'' @ minute @ '':'' @ second)
      | Some _ \<Rightarrow> Inl ValueError)"

definition regex_speed_pattern :: "item list" where
  \<comment> \<open>\<^verbatim>\<open>(\d{1,3})\s*([A-Za-z]{3,}.*)\<close>\<close>
  "regex_speed_pattern =
     [Grp [Rep Digit 1 (Some 3)], Plain (star Space), Grp [Rep Alpha 3 None, star AnyChar]]"

definition text_to_speed :: "string \<Rightarrow> error + speed_rec" where
  "text_to_speed speed_string =
     (case search regex_speed_pattern speed_string of
        None \<Rightarrow> Inr \<lparr>speed = 0, speed_units = ''MPH''\<rparr>
      | Some [speed_str, units_str] \<Rightarrow>
          bind (py_int speed_str) (\<lambda>n. Inr \<lparr>speed = n, speed_units = units_str\<rparr>)
      | Some _ \<Rightarrow> Inl ValueError)"

section \<open>Attribute stream builder\<close>

text \<open>
  The file system the builder reads: a path is a directory with its listing, or a file
  that holds an image (\<open>None\<close> for a file \<open>cv2.imread\<close> cannot decode). The OCR engine is
  the parameter \<open>ocr\<close>, an opaque function from images to text.
\<close>

datatype 'img node = Dir "string list" | File "'img option"

type_synonym 'img fs = "string \<Rightarrow> 'img node option"

definition rstrip :: "char \<Rightarrow> string \<Rightarrow> string" where
  "rstrip c s = rev (dropWhile (\<lambda>x. x = c) (rev s))"

definition listdir :: "'img fs \<Rightarrow> string \<Rightarrow> error + string list" where
  "listdir fs p = (case fs p of Some (Dir names) \<Rightarrow> Inr names | _ \<Rightarrow> Inl NotADirectoryError)"

definition imread :: "'img fs \<Rightarrow> string \<Rightarrow> 'img option" where
  "imread fs p = (case fs p of Some (File (Some img)) \<Rightarrow> Some img | _ \<Rightarrow> None)"

definition image_to_text :: "'img fs \<Rightarrow> ('img \<Rightarrow> string) \<Rightarrow> string \<Rightarrow> error + string" where
  "image_to_text fs ocr file_name =
     (case imread fs file_name of
        None \<Rightarrow> Inl (AssertionError ''Could not open image'')
      | Some img \<Rightarrow> Inr (ocr img))"

definition to_lower :: "char \<Rightarrow> char" where
  "to_lower c = (if 65 \<le> (of_char c :: nat) \<and> (of_char c :: nat) \<le> 90
                 then char_of ((of_char c :: nat) + 32) else c)"

definition ends_with :: "string \<Rightarrow> string \<Rightarrow> bool" where
  "ends_with e s = (take (length e) (rev s) = rev e)"

definition regex_image_pattern_search :: "string \<Rightarrow> bool" where
  \<comment> \<open>\<^verbatim>\<open>\.(jpg|jpeg|png)$\<close> with \<open>re.IGNORECASE\<close>; \<open>$\<close> also matches before a final line feed\<close>
  "regex_image_pattern_search f =
     (let g = map to_lower f
      in list_ex (\<lambda>e. ends_with e g \<or> ends_with (e @ [CHR 0x0A]) g) [''.jpg'', ''.jpeg'', ''.png''])"

definition regex_suffix_pattern :: "item list" where
  \<comment> \<open>\<^verbatim>\<open>\D*(\d+)\D*\<close>\<close>
  "regex_suffix_pattern = [Plain (star NonDigit), Grp [plus Digit], Plain (star NonDigit)]"

definition regex_directory_pattern :: "item list" where
  \<comment> \<open>\<^verbatim>\<open>\.\./(frames)/(\S*)/(\D*)\<close>\<close>
  "regex_directory_pattern =
     [Plain (lit CHR ''.''), Plain (lit CHR ''.''), Plain (lit CHR ''/''),
      Grp [lit CHR ''f'', lit CHR ''r'', lit CHR ''a'', lit CHR ''m'', lit CHR ''e'', lit CHR ''s''],
      Plain (lit CHR ''/''), Grp [star NonSpace], Plain (lit CHR ''/''), Grp [star NonDigit]]"

definition numeric_suffix :: "string \<Rightarrow> error + int" where
  \<comment> \<open>\<open>int(regex_suffix_pattern.search(x).group(1))\<close>\<close>
  "numeric_suffix x =
     (case search regex_suffix_pattern x of
        None \<Rightarrow> Inl AttributeError
      | Some gs \<Rightarrow> (case gs of [] \<Rightarrow> Inl IndexError | g # _ \<Rightarrow> py_int g))"

definition directory_data_type :: "string \<Rightarrow> error + string" where
  \<comment> \<open>\<open>regex_directory_pattern.search(input_dir).group(3)\<close>\<close>
  "directory_data_type input_dir =
     (case search regex_directory_pattern input_dir of
        None \<Rightarrow> Inl AttributeError
      | Some gs \<Rightarrow> (case gs of [g1, g2, g3] \<Rightarrow> Inr g3 | _ \<Rightarrow> Inl IndexError))"

fun sequence :: "(error + 'a) list \<Rightarrow> error + 'a list" where
  "sequence [] = Inr []"
| "sequence (m # ms) = bind m (\<lambda>x. bind (sequence ms) (\<lambda>xs. Inr (x # xs)))"

text \<open>
  One entry of an attribute stream: the dictionary \<open>{data_type: value}\<close> the builder stores
  under a frame index, or \<open>{'Error': 'Unrecognized Datatype'}\<close>.
\<close>

datatype entry = Gps coords | Speed speed_rec | Time string | ErrorEntry string

type_synonym frame_dict = "(int \<times> entry) list"

definition parse_entry :: "string \<Rightarrow> string \<Rightarrow> error + entry" where
  \<comment> \<open>the \<open>if\<close>/\<open>elif\<close> chain on \<open>data_type\<close> in the loop body\<close>
  "parse_entry data_type extracted_text =
     (if data_type = ''gps'' then bind (text_to_coordinates extracted_text) (\<lambda>v. Inr (Gps v))
      else if data_type = ''speed'' then bind (text_to_speed extracted_text) (\<lambda>v. Inr (Speed v))
      else if data_type = ''time'' then bind (text_to_timestamp extracted_text) (\<lambda>v. Inr (Time v))
      else Inr (ErrorEntry ''Unrecognized Datatype''))"

fun frames_loop ::
  "'img fs \<Rightarrow> ('img \<Rightarrow> string) \<Rightarrow> string \<Rightarrow> string \<Rightarrow> string list \<Rightarrow> frame_dict \<Rightarrow> error + frame_dict"
where
  "frames_loop fs ocr input_dir data_type [] frame_dict = Inr frame_dict"
| "frames_loop fs ocr input_dir data_type (image_name # rest) frame_dict =
     bind (numeric_suffix image_name) (\<lambda>numerical_suffix.
       let relative_path = input_dir @ ''/'' @ image_name
       in case imread fs relative_path of
            None \<Rightarrow> Inl (AssertionError ''Unable to open the provided image'')
          | Some img \<Rightarrow>
              bind (image_to_text fs ocr relative_path) (\<lambda>extracted_text.
              bind (parse_entry data_type extracted_text) (\<lambda>e.
              frames_loop fs ocr input_dir data_type rest
                (AList.update numerical_suffix e frame_dict))))"

definition image_directory_to_dict ::
  "'img fs \<Rightarrow> ('img \<Rightarrow> string) \<Rightarrow> string \<Rightarrow> error + frame_dict"
where
  "image_directory_to_dict fs ocr input_dir0 =
     (let input_dir = rstrip CHR ''/'' input_dir0
      in if fs input_dir = None then Inl (AssertionError ''Directory does not exist'')
         else
           bind (listdir fs input_dir) (\<lambda>all_files.
           let image_files = filter regex_image_pattern_search all_files
           in if \<not> length image_files > 0
              then Inl (AssertionError ''Provided directory does not contain any images'')
              else
                bind (sequence (map numeric_suffix image_files)) (\<lambda>keys.
                let sorted_files = map snd (sort_key fst (zip keys image_files))
                in bind (directory_data_type input_dir) (\<lambda>data_type.
                   frames_loop fs ocr input_dir data_type sorted_files []))))"

section \<open>Data frames\<close>

text \<open>
  A polars \<open>DataFrame\<close> is its list of named columns, in order. Floats are reals. The
  operations are the ones the source calls, with polars' failures as errors.
\<close>

text \<open>
  A column has a dtype: 64-bit integers, floats, strings, or the dtype \<open>Null\<close> polars gives
  a column that is built from an empty list of values.
\<close>

datatype column = IntCol "int list" | FloatCol "real list" | StrCol "string list" | NullCol

definition in_int64 :: "int \<Rightarrow> bool" where
  "in_int64 x = (- 9223372036854775808 \<le> x \<and> x < 9223372036854775808)"

definition wrap64 :: "int \<Rightarrow> int" where
  \<comment> \<open>the signed 64-bit value of an integer: arithmetic inside an \<open>Int64\<close> column wraps\<close>
  "wrap64 x = (x + 9223372036854775808) mod 18446744073709551616 - 9223372036854775808"

definition int_series :: "int list \<Rightarrow> error + column" where
  \<comment> \<open>a column built from Python integers: \<open>Null\<close> when there is none, \<open>OverflowError\<close> when
      one of them does not fit in 64 bits\<close>
  "int_series xs =
     (if xs = [] then Inr NullCol
      else if list_all in_int64 xs then Inr (IntCol xs) else Inl OverflowError)"

definition float_series :: "real list \<Rightarrow> column" where
  "float_series xs = (if xs = [] then NullCol else FloatCol xs)"

definition str_series :: "string list \<Rightarrow> column" where
  "str_series xs = (if xs = [] then NullCol else StrCol xs)"

type_synonym dataframe = "(string \<times> column) list"

fun col_len :: "column \<Rightarrow> nat" where
  "col_len (IntCol xs) = length xs"
| "col_len (FloatCol xs) = length xs"
| "col_len (StrCol xs) = length xs"
| "col_len NullCol = 0"

definition height :: "dataframe \<Rightarrow> nat" where
  "height df = (case df of [] \<Rightarrow> 0 | (n, c) # _ \<Rightarrow> col_len c)"

definition columns :: "dataframe \<Rightarrow> string list" where
  "columns df = map fst df"

definition get_col :: "dataframe \<Rightarrow> string \<Rightarrow> error + column" where
  "get_col df name = (case map_of df name of None \<Rightarrow> Inl (ColumnNotFoundError name) | Some c \<Rightarrow> Inr c)"

definition ints_of :: "column \<Rightarrow> error + int list" where
  "ints_of c = (case c of IntCol xs \<Rightarrow> Inr xs | FloatCol xs \<Rightarrow> Inl TypeError
                | StrCol xs \<Rightarrow> Inl InvalidOperationError | NullCol \<Rightarrow> Inl SchemaError)"

definition nums_of :: "column \<Rightarrow> error + real list" where
  "nums_of c = (case c of IntCol xs \<Rightarrow> Inr (map real_of_int xs) | FloatCol xs \<Rightarrow> Inr xs
                | StrCol xs \<Rightarrow> Inl InvalidOperationError | NullCol \<Rightarrow> Inr [])"

definition with_column :: "string \<Rightarrow> column \<Rightarrow> dataframe \<Rightarrow> dataframe" where
  \<comment> \<open>\<open>df.with_columns(col.alias(name))\<close>: replaces a column of that name, or appends\<close>
  "with_column name c df = AList.update name c df"

definition drop_col :: "string \<Rightarrow> dataframe \<Rightarrow> error + dataframe" where
  "drop_col name df =
     (if name \<in> set (columns df) then Inr (AList.delete name df) else Inl (ColumnNotFoundError name))"

definition filter_by :: "bool list \<Rightarrow> 'a list \<Rightarrow> 'a list" where
  "filter_by keep xs = map snd (filter fst (zip keep xs))"

fun filter_col :: "bool list \<Rightarrow> column \<Rightarrow> column" where
  "filter_col keep (IntCol xs) = IntCol (filter_by keep xs)"
| "filter_col keep (FloatCol xs) = FloatCol (filter_by keep xs)"
| "filter_col keep (StrCol xs) = StrCol (filter_by keep xs)"
| "filter_col keep NullCol = NullCol"

definition filter_df :: "bool list \<Rightarrow> dataframe \<Rightarrow> dataframe" where
  \<comment> \<open>\<open>df.filter(keep)\<close>: the rows where \<open>keep\<close> is true, in every column\<close>
  "filter_df keep df = map (\<lambda>(n, c). (n, filter_col keep c)) df"

fun gather :: "column \<Rightarrow> nat list \<Rightarrow> column" where
  "gather (IntCol xs) is = IntCol (map (\<lambda>i. xs ! i) is)"
| "gather (FloatCol xs) is = FloatCol (map (\<lambda>i. xs ! i) is)"
| "gather (StrCol xs) is = StrCol (map (\<lambda>i. xs ! i) is)"
| "gather NullCol is = NullCol"

definition join_idx :: "int list \<Rightarrow> int list \<Rightarrow> (nat \<times> nat) list" where
  "join_idx l r =
     concat (map (\<lambda>i. map (\<lambda>j. (i, j)) (filter (\<lambda>j. l ! i = r ! j) [0 ..< length r])) [0 ..< length l])"

text \<open>
  \<open>left.join(right, on=key)\<close> is an inner join on a 64-bit integer key: it fails when a key
  column has another dtype, as the \<open>Null\<close> column of a frame built from an empty stream has.
  polars does not specify the order of the rows of an inner join; the parameter \<open>row_order\<close>
  is the order it returns the matching pairs of rows in. The columns are those of the left
  frame followed by the other columns of the right.
\<close>

definition join ::
  "((nat \<times> nat) list \<Rightarrow> (nat \<times> nat) list) \<Rightarrow> dataframe \<Rightarrow> dataframe \<Rightarrow> string \<Rightarrow> error + dataframe"
where
  "join row_order left right key =
     bind (get_col left key) (\<lambda>lc. bind (ints_of lc) (\<lambda>lk.
     bind (get_col right key) (\<lambda>rc. bind (ints_of rc) (\<lambda>rk.
     let ps = row_order (join_idx lk rk)
     in Inr (map (\<lambda>(n, c). (n, gather c (map fst ps))) left @
             map (\<lambda>(n, c). (n, gather c (map snd ps))) (filter (\<lambda>(n, c). n \<noteq> key) right))))))"

section \<open>Record assembler\<close>

definition entry_time :: "entry \<Rightarrow> error + string" where
  "entry_time e = (case e of Time t \<Rightarrow> Inr t | _ \<Rightarrow> Inl (KeyError ''time''))"

definition entry_gps :: "entry \<Rightarrow> error + coords" where
  "entry_gps e = (case e of Gps g \<Rightarrow> Inr g | _ \<Rightarrow> Inl (KeyError ''gps''))"

definition entry_speed :: "entry \<Rightarrow> error + speed_rec" where
  "entry_speed e = (case e of Speed v \<Rightarrow> Inr v | _ \<Rightarrow> Inl (KeyError ''speed''))"

definition dict_to_dataframe ::
  "((nat \<times> nat) list \<Rightarrow> (nat \<times> nat) list) \<Rightarrow> frame_dict \<Rightarrow> frame_dict \<Rightarrow> frame_dict
     \<Rightarrow> error + dataframe"
where
  "dict_to_dataframe row_order time_dict gps_dict speed_dict =
     bind (sequence (map (entry_time \<circ> snd) time_dict)) (\<lambda>ts.
     bind (int_series (map fst time_dict)) (\<lambda>time_index.
     let time_df = [(''frame_index'', time_index), (''timestamp'', str_series ts)]
     in bind (sequence (map (entry_gps \<circ> snd) gps_dict)) (\<lambda>gs.
     bind (int_series (map fst gps_dict)) (\<lambda>gps_index.
     let gps_df = [(''frame_index'', gps_index),
                   (''latitude'', float_series (map latitude gs)),
                   (''longitude'', float_series (map longitude gs))]
     in bind (sequence (map (entry_speed \<circ> snd) speed_dict)) (\<lambda>vs.
     bind (int_series (map fst speed_dict)) (\<lambda>speed_index.
     bind (int_series (map speed vs)) (\<lambda>speeds.
     let speed_df = [(''frame_index'', speed_index),
                     (''speed'', speeds),
                     (''speed_units'', str_series (map speed_units vs))]
     in bind (join row_order time_df gps_df ''frame_index'') (\<lambda>j.
        join row_order j speed_df ''frame_index''))))))))"

definition rectangular :: "dataframe \<Rightarrow> bool" where
  \<comment> \<open>all columns of a data frame have its height\<close>
  "rectangular df = (\<forall>c\<in>snd ` set df. col_len c = height df)"

section \<open>Reindexer and outlier filter\<close>

fun diff :: "'a::minus list \<Rightarrow> 'a option list" where
  \<comment> \<open>\<open>col.diff()\<close>: the difference from the predecessor, null in the first row\<close>
  "diff [] = []"
| "diff (x # xs) = None # map (\<lambda>(a, b). Some (b - a)) (zip (x # xs) xs)"

definition diff_int64 :: "int list \<Rightarrow> int option list" where
  \<comment> \<open>\<open>diff\<close> of an \<open>Int64\<close> column: the subtraction wraps\<close>
  "diff_int64 xs = map (map_option wrap64) (diff xs)"

definition fill_null :: "'a \<Rightarrow> 'a option list \<Rightarrow> 'a list" where
  "fill_null v xs = map (\<lambda>x. case x of None \<Rightarrow> v | Some y \<Rightarrow> y) xs"

definition modes :: "int list \<Rightarrow> int list" where
  \<comment> \<open>the values that occur most often, each once\<close>
  "modes xs =
     (let top = fold max (map (count_list xs) xs) 0
      in filter (\<lambda>v. count_list xs v = top) (remdups xs))"

text \<open>
  \<open>col.mode()\<close> returns all the most frequent values, in an order polars does not specify;
  the source takes the first. The choice among tied values is the parameter \<open>tie\<close>.
\<close>

definition first_mode :: "(int list \<Rightarrow> int) \<Rightarrow> int list \<Rightarrow> error + int" where
  \<comment> \<open>\<open>df.select(pl.col(..).mode()).to_series()[0]\<close>\<close>
  "first_mode tie xs = (if modes xs = [] then Inl IndexError else Inr (tie (modes xs)))"

definition py_range :: "int \<Rightarrow> int \<Rightarrow> int \<Rightarrow> error + int list" where
  \<comment> \<open>\<open>range(start, stop, step)\<close>\<close>
  "py_range start stop step =
     (if step = 0 then Inl ValueError
      else let n = (if step > 0 then (stop - start + step - 1) div step
                    else (start - stop - step - 1) div (- step))
           in Inr (map (\<lambda>k. start + int k * step) [0 ..< nat n]))"

definition mean :: "real list \<Rightarrow> real option" where
  "mean xs = (if xs = [] then None else Some (sum_list xs / real (length xs)))"

definition std :: "real list \<Rightarrow> real option" where
  \<comment> \<open>the sample standard deviation (\<open>ddof = 1\<close>), null on fewer than two values\<close>
  "std xs =
     (if length xs < 2 then None
      else let m = sum_list xs / real (length xs)
           in Some (sqrt (sum_list (map (\<lambda>x. (x - m)\<^sup>2) xs) / real (length xs - 1))))"

definition need :: "real option \<Rightarrow> error + real" where
  \<comment> \<open>arithmetic on a statistic that is \<open>None\<close> raises \<open>TypeError\<close>\<close>
  "need v = (case v of None \<Rightarrow> Inl TypeError | Some x \<Rightarrow> Inr x)"

definition py_div :: "real \<Rightarrow> nat \<Rightarrow> error + real" where
  "py_div a n = (if n = 0 then Inl ZeroDivisionError else Inr (a / real n))"

definition in_band :: "real \<Rightarrow> real \<Rightarrow> real \<Rightarrow> real \<Rightarrow> bool" where
  \<comment> \<open>\<open>(abs(v) >= abs(m) - k * s) & (abs(v) <= abs(m) + k * s)\<close>\<close>
  "in_band m k s v = (abs v \<ge> abs m - k * s \<and> abs v \<le> abs m + k * s)"

definition num_col :: "dataframe \<Rightarrow> string \<Rightarrow> error + real list" where
  "num_col df name = bind (get_col df name) nums_of"

definition reindex :: "(int list \<Rightarrow> int) \<Rightarrow> dataframe \<Rightarrow> error + dataframe" where
  \<comment> \<open>lines 11 to 14 of \<open>clean_dataframe\<close>; the differences are taken in the \<open>Int64\<close> column,
      the new index is a series built from the Python integers of the range\<close>
  "reindex tie df0 =
     bind (get_col df0 ''frame_index'') (\<lambda>c. bind (ints_of c) (\<lambda>frame_index.
     let frame_delta = fill_null 0 (diff_int64 frame_index);
         df = with_column ''frame_delta'' (IntCol frame_delta) df0
     in bind (first_mode tie frame_delta) (\<lambda>interval.
        bind (py_range 0 (interval * int (height df)) interval) (\<lambda>values.
        bind (int_series values) (\<lambda>new_index.
        let df = with_column ''new_index'' new_index df
        in bind (drop_col ''frame_delta'' df) (\<lambda>df. drop_col ''frame_index'' df))))))"

definition domain_pass :: "dataframe \<Rightarrow> error + dataframe" where
  \<comment> \<open>lines 16 to 18\<close>
  "domain_pass df0 =
     bind (num_col df0 ''latitude'') (\<lambda>lat.
     let df = filter_df (map (\<lambda>v. v \<noteq> 0) lat) df0
     in bind (num_col df ''latitude'') (\<lambda>lat.
     let df = filter_df (map (\<lambda>v. abs v \<le> 90) lat) df
     in bind (num_col df ''longitude'') (\<lambda>lon.
     Inr (filter_df (map (\<lambda>v. abs v \<le> 180) lon) df))))"

definition std_threshold :: real where
  "std_threshold = 2"

definition speed_std_threshold :: real where
  "speed_std_threshold = 3"

definition magnitude_pass :: "dataframe \<Rightarrow> error + dataframe" where
  \<comment> \<open>lines 22 to 41: the six statistics are taken once, before the three filters\<close>
  "magnitude_pass df0 =
     bind (num_col df0 ''latitude'') (\<lambda>lat0.
     let latitude_mean = mean lat0; latitude_std = std lat0
     in bind (num_col df0 ''longitude'') (\<lambda>lon0.
     let longitude_mean = mean lon0; longitude_std = std lon0
     in bind (num_col df0 ''speed'') (\<lambda>speed0.
     let speed_mean = mean speed0; speed_std = std speed0
     in bind (need latitude_mean) (\<lambda>m. bind (need latitude_std) (\<lambda>s.
        let df = filter_df (map (in_band m std_threshold s) lat0) df0
        in bind (num_col df ''longitude'') (\<lambda>lon.
           bind (need longitude_mean) (\<lambda>m. bind (need longitude_std) (\<lambda>s.
           let df = filter_df (map (in_band m std_threshold s) lon) df
           in bind (num_col df ''speed'') (\<lambda>spd.
              bind (need speed_mean) (\<lambda>m. bind (need speed_std) (\<lambda>s.
              Inr (filter_df (map (in_band m speed_std_threshold s) spd) df))))))))))))"

definition delta_pass :: "dataframe \<Rightarrow> error + dataframe" where
  \<comment> \<open>lines 46 to 60: the factor \<open>1 + 100 / df.height\<close> is taken from the frame each filter
      is applied to\<close>
  "delta_pass df0 =
     bind (num_col df0 ''latitude'') (\<lambda>lat.
     let df = with_column ''lat_delta'' (FloatCol (fill_null 0 (diff lat))) df0
     in bind (num_col df ''longitude'') (\<lambda>lon.
     let df = with_column ''lon_delta'' (FloatCol (fill_null 0 (diff lon))) df
     in bind (num_col df ''lat_delta'') (\<lambda>lat_delta.
        bind (num_col df ''lon_delta'') (\<lambda>lon_delta.
        let latitude_diff_mean = mean lat_delta; latitude_diff_std = std lat_delta;
            longitude_diff_mean = mean lon_delta; longitude_diff_std = std lon_delta
        in bind (need latitude_diff_mean) (\<lambda>m. bind (py_div 100 (height df)) (\<lambda>q.
           bind (need latitude_diff_std) (\<lambda>s.
           let df = filter_df (map (in_band m (std_threshold * (1 + q)) s) lat_delta) df
           in bind (num_col df ''lon_delta'') (\<lambda>lon_delta.
              bind (need longitude_diff_mean) (\<lambda>m. bind (py_div 100 (height df)) (\<lambda>q.
              bind (need longitude_diff_std) (\<lambda>s.
              Inr (filter_df (map (in_band m (std_threshold * (1 + q)) s) lon_delta) df))))))))))))"

type_synonym csv_files = "string \<Rightarrow> dataframe option"

definition write_dataframe_to_file :: "dataframe \<Rightarrow> string \<Rightarrow> string \<Rightarrow> csv_files \<Rightarrow> csv_files" where
  \<comment> \<open>the CSV file written holds the columns of the frame, under their names\<close>
  "write_dataframe_to_file df output_dir file_name files =
     files (rstrip CHR ''/'' output_dir @ ''/'' @ file_name \<mapsto> df)"

definition clean_dataframe ::
  "(int list \<Rightarrow> int) \<Rightarrow> csv_files \<Rightarrow> dataframe \<Rightarrow> error + dataframe \<times> csv_files"
where
  "clean_dataframe tie files df =
     bind (reindex tie df) (\<lambda>df.
     bind (domain_pass df) (\<lambda>df.
     bind (magnitude_pass df) (\<lambda>df.
     bind (delta_pass df) (\<lambda>df.
     Inr (df, write_dataframe_to_file df ''../output/'' ''filtered_dashcam.csv'' files)))))"

section \<open>What a match looks like\<close>

text \<open>
  The strings an atom, a sequence of atoms and the groups of a pattern can match. These
  predicates state what the matcher's results look like; the matcher does not use them.
\<close>

fun atom_ok :: "atom \<Rightarrow> string \<Rightarrow> bool" where
  "atom_ok (Rep c lo hi) t =
     (list_all (in_cls c) t \<and> lo \<le> length t \<and> (case hi of None \<Rightarrow> True | Some h \<Rightarrow> length t \<le> h))"

fun atoms_ok :: "atom list \<Rightarrow> string \<Rightarrow> bool" where
  "atoms_ok [] t = (t = [])"
| "atoms_ok (a # as) t = (\<exists>k\<le>length t. atom_ok a (take k t) \<and> atoms_ok as (drop k t))"

fun groups_of :: "item list \<Rightarrow> atom list list" where
  "groups_of [] = []"
| "groups_of (Grp as # is) = as # groups_of is"
| "groups_of (Plain a # is) = groups_of is"

definition first_is :: "'a \<Rightarrow> 'a list \<Rightarrow> bool" where
  \<comment> \<open>the alternative the backtracking matcher reports\<close>
  "first_is x xs = (case xs of [] \<Rightarrow> False | y # ys \<Rightarrow> y = x)"

section \<open>Example inputs\<close>

definition demo_fs :: "nat fs" where
  \<comment> \<open>a frame directory with one image file whose name has no digit\<close>
  "demo_fs = (\<lambda>p. None)(''../frames/v/time'' \<mapsto> Dir [''frame_1.jpg'', ''cover.jpg''])"

definition test_fs :: "nat fs" where
  \<comment> \<open>the directory \<open>test_dataframe\<close> of \<open>tests/test_main.py\<close> reads for the time stream\<close>
  "test_fs = (\<lambda>p. None)
     (''frames/010979F/time'' \<mapsto> Dir [''frame_0.jpg'', ''frame_3.jpg'', ''frame_6.jpg''],
      ''frames/010979F/time/frame_0.jpg'' \<mapsto> File (Some 0),
      ''frames/010979F/time/frame_3.jpg'' \<mapsto> File (Some 3),
      ''frames/010979F/time/frame_6.jpg'' \<mapsto> File (Some 6))"

definition trip_df :: dataframe where
  \<comment> \<open>five frames with one dropped frame index and one failed coordinate parse\<close>
  "trip_df =
     [(''frame_index'', IntCol [0, 3, 6, 10, 13]),
      (''timestamp'', StrCol [''08-04-2024 11:04:13'', ''08-04-2024 11:04:16'', ''08-04-2024 11:04:19'',
                              ''08-04-2024 11:04:23'', ''08-04-2024 11:04:26'']),
      (''latitude'', FloatCol [30, 0, 30, 30, 30]),
      (''longitude'', FloatCol [- 97, 0, - 97, - 97, - 97]),
      (''speed'', IntCol [50, 50, 50, 50, 50]),
      (''speed_units'', StrCol [''MPH'', ''MPH'', ''MPH'', ''MPH'', ''MPH''])]"

definition one_row_df :: dataframe where
  "one_row_df =
     [(''frame_index'', IntCol [7]), (''timestamp'', StrCol [''08-04-2024 11:04:13'']),
      (''latitude'', FloatCol [30]), (''longitude'', FloatCol [- 97]),
      (''speed'', IntCol [50]), (''speed_units'', StrCol [''MPH''])]"

definition cleaned_trip_df :: dataframe where
  \<comment> \<open>what \<open>clean_dataframe\<close> returns and writes for \<open>trip_df\<close>\<close>
  "cleaned_trip_df =
     [(''timestamp'', StrCol [''08-04-2024 11:04:13'', ''08-04-2024 11:04:19'',
                              ''08-04-2024 11:04:23'', ''08-04-2024 11:04:26'']),
      (''latitude'', FloatCol [30, 30, 30, 30]),
      (''longitude'', FloatCol [- 97, - 97, - 97, - 97]),
      (''speed'', IntCol [50, 50, 50, 50]),
      (''speed_units'', StrCol [''MPH'', ''MPH'', ''MPH'', ''MPH'']),
      (''new_index'', IntCol [0, 6, 9, 12]),
      (''lat_delta'', FloatCol [0, 0, 0, 0]),
      (''lon_delta'', FloatCol [0, 0, 0, 0])]"

lemma bind_Inl [simp]: "bind (Inl e) f = Inl e"
  by (simp add: bind_def)

lemma bind_Inr [simp]: "bind (Inr x) f = f x"
  by (simp add: bind_def)

lemma bind_eq_Inr: "bind m f = Inr y \<longleftrightarrow> (\<exists>x. m = Inr x \<and> f x = Inr y)"
  by (cases m) simp_all

lemma reps_none:
  assumes "s = [] \<or> \<not> in_cls c (hd s)" and "0 < lo"
  shows "reps c lo hi s = []"
proof -
  have "takeWhile (in_cls c) s = []"
    using assms(1) by (cases s) auto
  then show ?thesis
    using assms(2) by (simp add: reps_def split: option.split)
qed

lemma take_run_all:
  assumes "k \<le> length (takeWhile P s)"
  shows "list_all P (take k s)"
proof -
  have "take k (takeWhile P s @ dropWhile P s) = take k (takeWhile P s)"
    using assms by (subst take_append) simp
  then have "take k s = take k (takeWhile P s)" by simp
  then have "set (take k s) \<subseteq> set (takeWhile P s)" by (metis set_take_subset)
  then show ?thesis by (auto simp: list_all_iff dest: set_takeWhileD)
qed

lemma reps_sound:
  assumes "(t, r) \<in> set (reps c lo hi s)"
  shows "s = t @ r \<and> atom_ok (Rep c lo hi) t"
proof -
  let ?run = "length (takeWhile (in_cls c) s)"
  let ?top = "case hi of None \<Rightarrow> ?run | Some h \<Rightarrow> min h ?run"
  from assms obtain k where k: "lo \<le> k" "k \<le> ?top" and t: "t = take k s" and r: "r = drop k s"
    by (auto simp: reps_def Let_def)
  have top: "?top \<le> ?run" by (simp split: option.split)
  have "?run \<le> length s" by (rule length_takeWhile_le)
  with k top have len: "length t = k" by (simp add: t)
  have "list_all (in_cls c) t"
    unfolding t using k top by (intro take_run_all) simp
  moreover have "case hi of None \<Rightarrow> True | Some h \<Rightarrow> length t \<le> h"
    using k(2) len by (auto split: option.split)
  ultimately have "atom_ok (Rep c lo hi) t" using k(1) len by simp
  then show ?thesis by (simp add: t r)
qed

lemma match_atoms_sound:
  "(t, r) \<in> set (match_atoms as s) \<Longrightarrow> s = t @ r \<and> atoms_ok as t"
proof (induction as arbitrary: s t r)
  case Nil
  then show ?case by simp
next
  case (Cons a as)
  obtain c lo hi where a: "a = Rep c lo hi" by (cases a)
  from Cons.prems obtain t1 r1 u where
    1: "(t1, r1) \<in> set (reps c lo hi s)" and 2: "(u, r) \<in> set (match_atoms as r1)" and t: "t = t1 @ u"
    by (auto simp: a)
  from reps_sound[OF 1] have s: "s = t1 @ r1" and ok: "atom_ok (Rep c lo hi) t1" by simp_all
  from Cons.IH[OF 2] have r1: "r1 = u @ r" and oks: "atoms_ok as u" by simp_all
  have "atoms_ok (a # as) t"
    unfolding a t atoms_ok.simps
    by (rule exI[of _ "length t1"]) (use ok oks in simp)
  then show ?case by (simp add: s r1 t)
qed

lemma match_items_sound:
  "(gs, r) \<in> set (match_items p s) \<Longrightarrow> list_all2 atoms_ok (groups_of p) gs \<and> (\<exists>m. s = m @ r)"
proof (induction p arbitrary: s gs r)
  case Nil
  then show ?case by simp
next
  case (Cons it p)
  show ?case
  proof (cases it)
    case (Grp as)
    from Cons.prems obtain t r1 gs' where
      1: "(t, r1) \<in> set (match_atoms as s)" and 2: "(gs', r) \<in> set (match_items p r1)" and g: "gs = t # gs'"
      by (auto simp: Grp)
    from match_atoms_sound[OF 1] Cons.IH[OF 2] show ?thesis
      by (auto simp: Grp g)
  next
    case (Plain a)
    from Cons.prems obtain t r1 where
      1: "(t, r1) \<in> set (match_atoms [a] s)" and 2: "(gs, r) \<in> set (match_items p r1)"
      by (auto simp: Plain)
    from match_atoms_sound[OF 1] Cons.IH[OF 2] show ?thesis
      by (auto simp: Plain)
  qed
qed

lemma search_sound:
  "search p s = Some gs \<Longrightarrow> list_all2 atoms_ok (groups_of p) gs"
proof (induction s)
  case Nil
  then obtain r ms where "match_items p [] = (gs, r) # ms"
    by (auto split: list.splits)
  then have "(gs, r) \<in> set (match_items p [])" by simp
  then show ?case using match_items_sound by blast
next
  case (Cons c cs)
  show ?case
  proof (cases "match_items p (c # cs)")
    case Nil
    with Cons show ?thesis by simp
  next
    case (Cons m ms)
    with Cons.prems have "(gs, snd m) \<in> set (match_items p (c # cs))"
      by (cases m) auto
    then show ?thesis using match_items_sound by blast
  qed
qed

lemma atoms_ok_single [simp]: "atoms_ok [a] t = atom_ok a t"
  by auto

lemma match_first_fails:
  assumes "s = [] \<or> \<not> in_cls c (hd s)" and "0 < lo"
  shows "match_items (Grp (Rep c lo hi # as) # p) s = []"
  using reps_none[OF assms] by simp

lemma search_first_fails:
  assumes "\<forall>x\<in>set s. \<not> in_cls c x" and "0 < lo"
  shows "search (Grp (Rep c lo hi # as) # p) s = None"
  using assms(1)
proof (induction s)
  case Nil
  have m: "match_items (Grp (Rep c lo hi # as) # p) [] = []"
    using assms(2) by (intro match_first_fails) simp_all
  show ?case unfolding search.simps m by simp
next
  case (Cons x xs)
  then have m: "match_items (Grp (Rep c lo hi # as) # p) (x # xs) = []"
    using assms(2) by (intro match_first_fails) simp_all
  from Cons show ?case unfolding search.simps m by simp
qed

lemma digit_not_point: "is_digit c \<Longrightarrow> c \<noteq> CHR ''.''"
  by (auto simp: is_digit_def)

lemma py_float_decimal:
  assumes "w \<noteq> []" "list_all is_digit w" "f \<noteq> []" "list_all is_digit f"
  shows "py_float (w @ ''.'' @ f) = Inr (decimal w f)"
proof -
  have "\<forall>x\<in>set w. x \<noteq> CHR ''.''"
    using assms(2) by (auto simp: list_all_iff dest: digit_not_point)
  then have "takeWhile (\<lambda>c. c \<noteq> CHR ''.'') (w @ ''.'' @ f) = w"
    by (simp add: takeWhile_append2)
  then show ?thesis
    using assms by (simp add: py_float_def Let_def)
qed

lemma one_of_single:
  assumes "atom_ok (Rep (OneOf [a, b]) 1 (Some 1)) t"
  shows "t = [a] \<or> t = [b]"
proof -
  from assms have "length t = 1" and "list_all (\<lambda>c. c = a \<or> c = b) t"
    by (auto simp: list_all_iff)
  then show ?thesis by (cases t) auto
qed

lemma digits_run:
  assumes "atom_ok (plus Digit) t"
  shows "t \<noteq> [] \<and> list_all is_digit t"
  using assms by (auto simp: plus_def list_all_iff)

lemma coord_groups:
  assumes "search regex_coord_pattern s = Some gs"
  shows "\<exists>lat_dir w1 d1 f1 lon_dir w2 d2 f2.
           gs = [lat_dir, w1, d1, f1, lon_dir, w2, d2, f2] \<and>
           (lat_dir = ''N'' \<or> lat_dir = ''S'') \<and> (lon_dir = ''E'' \<or> lon_dir = ''W'') \<and>
           w1 \<noteq> [] \<and> list_all is_digit w1 \<and> f1 \<noteq> [] \<and> list_all is_digit f1 \<and>
           w2 \<noteq> [] \<and> list_all is_digit w2 \<and> f2 \<noteq> [] \<and> list_all is_digit f2"
proof -
  from search_sound[OF assms]
  have "list_all2 atoms_ok (groups_of regex_coord_pattern) gs" .
  then obtain lat_dir w1 d1 f1 lon_dir w2 d2 f2 where
    gs: "gs = [lat_dir, w1, d1, f1, lon_dir, w2, d2, f2]" and
    a: "atom_ok (Rep (OneOf ''NS'') 1 (Some 1)) lat_dir" "atom_ok (Rep (OneOf ''EW'') 1 (Some 1)) lon_dir" and
    d: "atom_ok (plus Digit) w1" "atom_ok (plus Digit) f1" "atom_ok (plus Digit) w2" "atom_ok (plus Digit) f2"
    unfolding regex_coord_pattern_def groups_of.simps
    by (auto simp: list_all2_Cons1 simp del: atom_ok.simps atoms_ok.simps(2))
  from one_of_single[OF a(1)] one_of_single[OF a(2)] d[THEN digits_run] gs
  show ?thesis by blast
qed

lemma coord_example_groups:
  "search regex_coord_pattern ''N40.426786 W97 .665820'' =
     Some [''N'', ''40'', ''.'', ''426786'', ''W'', ''97'', '' .'', ''665820'']"
  by code_simp

lemma coord_example:
  "text_to_coordinates ''N40.426786 W97 .665820'' =
     Inr \<lparr>latitude = 40.426786, longitude = - 97.665820\<rparr>"
proof -
  have "py_float (''40'' @ ''.'' @ ''426786'') = Inr (decimal ''40'' ''426786'')"
    by (rule py_float_decimal) (simp_all add: is_digit_def)
  moreover have "py_float (''97'' @ ''.'' @ ''665820'') = Inr (decimal ''97'' ''665820'')"
    by (rule py_float_decimal) (simp_all add: is_digit_def)
  moreover have "decimal ''40'' ''426786'' = 40.426786" "decimal ''97'' ''665820'' = 97.665820"
    by (simp_all add: decimal_def)
  ultimately show ?thesis
    unfolding text_to_coordinates_def coord_example_groups by simp
qed

text \<open>
  C4. For every input string the coordinate parser returns a value and never raises. When
  the pattern is not found the value is the sentinel \<open>(0, 0)\<close>; when it is found, the
  latitude is the decimal number read from the text, negated when the hemisphere letter is
  \<open>S\<close>, and the longitude is negated when the letter is \<open>W\<close>. An input with none of the
  letters \<open>N\<close>, \<open>S\<close>, \<open>E\<close>, \<open>W\<close> gives the sentinel, and \<open>N40.426786 W97 .665820\<close> gives
  \<open>(40.426786, -97.665820)\<close>.
\<close>

theorem text_to_coordinates_signed_total:
  "(\<exists>r. text_to_coordinates s = Inr r \<and>
      (search regex_coord_pattern s = None \<longrightarrow> r = \<lparr>latitude = 0, longitude = 0\<rparr>) \<and>
      (\<forall>lat_dir w1 d1 f1 lon_dir w2 d2 f2.
         search regex_coord_pattern s = Some [lat_dir, w1, d1, f1, lon_dir, w2, d2, f2] \<longrightarrow>
         (lat_dir = ''N'' \<or> lat_dir = ''S'') \<and> (lon_dir = ''E'' \<or> lon_dir = ''W'') \<and>
         latitude r = (if lat_dir = ''S'' then - decimal w1 f1 else decimal w1 f1) \<and>
         longitude r = (if lon_dir = ''W'' then - decimal w2 f2 else decimal w2 f2)) \<and>
      ((\<forall>c\<in>set s. c \<notin> set ''NSEW'') \<longrightarrow> r = \<lparr>latitude = 0, longitude = 0\<rparr>)) \<and>
   text_to_coordinates ''N40.426786 W97 .665820'' =
     Inr \<lparr>latitude = 40.426786, longitude = - 97.665820\<rparr>"
proof (rule conjI)
  show "\<exists>r. text_to_coordinates s = Inr r \<and>
      (search regex_coord_pattern s = None \<longrightarrow> r = \<lparr>latitude = 0, longitude = 0\<rparr>) \<and>
      (\<forall>lat_dir w1 d1 f1 lon_dir w2 d2 f2.
         search regex_coord_pattern s = Some [lat_dir, w1, d1, f1, lon_dir, w2, d2, f2] \<longrightarrow>
         (lat_dir = ''N'' \<or> lat_dir = ''S'') \<and> (lon_dir = ''E'' \<or> lon_dir = ''W'') \<and>
         latitude r = (if lat_dir = ''S'' then - decimal w1 f1 else decimal w1 f1) \<and>
         longitude r = (if lon_dir = ''W'' then - decimal w2 f2 else decimal w2 f2)) \<and>
      ((\<forall>c\<in>set s. c \<notin> set ''NSEW'') \<longrightarrow> r = \<lparr>latitude = 0, longitude = 0\<rparr>)"
  proof (cases "search regex_coord_pattern s")
    case None
    then show ?thesis by (simp add: text_to_coordinates_def)
  next
    case (Some gs)
    from coord_groups[OF Some] obtain lat_dir w1 d1 f1 lon_dir w2 d2 f2 where
      gs: "gs = [lat_dir, w1, d1, f1, lon_dir, w2, d2, f2]" and
      dirs: "lat_dir = ''N'' \<or> lat_dir = ''S''" "lon_dir = ''E'' \<or> lon_dir = ''W''" and
      d1: "w1 \<noteq> []" "list_all is_digit w1" "f1 \<noteq> []" "list_all is_digit f1" and
      d2: "w2 \<noteq> []" "list_all is_digit w2" "f2 \<noteq> []" "list_all is_digit f2"
      by blast
    have letters: "\<not> (\<forall>c\<in>set s. c \<notin> set ''NSEW'')"
    proof
      assume "\<forall>c\<in>set s. c \<notin> set ''NSEW''"
      then have "\<forall>x\<in>set s. \<not> in_cls (OneOf ''NS'') x" by auto
      then have "search regex_coord_pattern s = None"
        unfolding regex_coord_pattern_def by (rule search_first_fails) simp
      with Some show False by simp
    qed
    have r: "text_to_coordinates s =
        Inr \<lparr>latitude = decimal w1 f1 * (if lat_dir = ''N'' then 1 else - 1),
             longitude = decimal w2 f2 * (if lon_dir = ''E'' then 1 else - 1)\<rparr>"
      unfolding text_to_coordinates_def Some gs
      by (simp add: py_float_decimal[OF d1, simplified] py_float_decimal[OF d2, simplified])
    show ?thesis
      unfolding r using dirs letters by (auto simp: Some gs)
  qed
next
  show "text_to_coordinates ''N40.426786 W97 .665820'' =
     Inr \<lparr>latitude = 40.426786, longitude = - 97.665820\<rparr>"
    by (rule coord_example)
qed

lemma coord_witness_groups:
  "search regex_coord_pattern ''S1.5 W2.25'' = Some [''S'', ''1'', ''.'', ''5'', ''W'', ''2'', ''.'', ''25'']"
  by code_simp

theorem text_to_coordinates_signed_total_witness:
  "(\<exists>r. text_to_coordinates ''S1.5 W2.25'' = Inr r \<and> latitude r = - 1.5 \<and> longitude r = - 2.25) \<and>
   text_to_coordinates ''40.4 97.6'' = Inr \<lparr>latitude = 0, longitude = 0\<rparr>"
proof
  from text_to_coordinates_signed_total[of "''S1.5 W2.25''"] obtain r where
    r: "text_to_coordinates ''S1.5 W2.25'' = Inr r" and
    g: "\<And>lat_dir w1 d1 f1 lon_dir w2 d2 f2.
         search regex_coord_pattern ''S1.5 W2.25'' = Some [lat_dir, w1, d1, f1, lon_dir, w2, d2, f2] \<Longrightarrow>
         latitude r = (if lat_dir = ''S'' then - decimal w1 f1 else decimal w1 f1) \<and>
         longitude r = (if lon_dir = ''W'' then - decimal w2 f2 else decimal w2 f2)"
    by blast
  from g[OF coord_witness_groups] have "latitude r = - 1.5 \<and> longitude r = - 2.25"
    by (simp add: decimal_def)
  with r show "\<exists>r. text_to_coordinates ''S1.5 W2.25'' = Inr r \<and> latitude r = - 1.5 \<and> longitude r = - 2.25"
    by blast
next
  from text_to_coordinates_signed_total[of "''40.4 97.6''"] obtain r where
    r: "text_to_coordinates ''40.4 97.6'' = Inr r" and
    z: "(\<forall>c\<in>set ''40.4 97.6''. c \<notin> set ''NSEW'') \<longrightarrow> r = \<lparr>latitude = 0, longitude = 0\<rparr>"
    by blast
  have "\<forall>c\<in>set ''40.4 97.6''. c \<notin> set ''NSEW''" by simp
  with z r show "text_to_coordinates ''40.4 97.6'' = Inr \<lparr>latitude = 0, longitude = 0\<rparr>" by simp
qed

section \<open>The attribute stream builder\<close>

lemma suffix_match_none:
  assumes "\<forall>c\<in>set s. \<not> is_digit c"
  shows "match_items regex_suffix_pattern s = []"
proof -
  have "match_items (Grp [plus Digit] # [Plain (star NonDigit)]) r = []"
    if "(t, r) \<in> set (match_atoms [star NonDigit] s)" for t r
  proof -
    from match_atoms_sound[OF that] have "s = t @ r" by simp
    with assms have "r = [] \<or> \<not> in_cls Digit (hd r)" by (cases r) auto
    then show ?thesis unfolding plus_def by (rule match_first_fails) simp
  qed
  then show ?thesis
    unfolding regex_suffix_pattern_def match_items.simps(3) by auto
qed

lemma suffix_search_none:
  assumes "\<forall>c\<in>set s. \<not> is_digit c"
  shows "search regex_suffix_pattern s = None"
  using assms
proof (induction s)
  case Nil
  show ?case unfolding search.simps suffix_match_none[OF Nil] by simp
next
  case (Cons x xs)
  from Cons show ?case unfolding search.simps suffix_match_none[OF Cons.prems] by simp
qed

lemma py_int_digits: "t \<noteq> [] \<Longrightarrow> list_all is_digit t \<Longrightarrow> py_int t = Inr (int (digits_val t 0))"
  by (simp add: py_int_def)

lemma numeric_suffix_cases:
  "numeric_suffix x = Inl AttributeError \<or> (\<exists>n. numeric_suffix x = Inr n)"
proof (cases "search regex_suffix_pattern x")
  case None
  then show ?thesis by (simp add: numeric_suffix_def)
next
  case (Some gs)
  from search_sound[OF Some] obtain g where gs: "gs = [g]" and "atom_ok (plus Digit) g"
    unfolding regex_suffix_pattern_def groups_of.simps
    by (auto simp: list_all2_Cons1 simp del: atom_ok.simps atoms_ok.simps(2))
  then have "g \<noteq> []" "list_all is_digit g" using digits_run by blast+
  then show ?thesis by (simp add: numeric_suffix_def Some gs py_int_digits)
qed

lemma numeric_suffix_no_digit:
  "\<forall>c\<in>set x. \<not> is_digit c \<Longrightarrow> numeric_suffix x = Inl AttributeError"
  by (simp add: numeric_suffix_def suffix_search_none)

lemma sequence_first_error:
  assumes "\<forall>m\<in>set ms. m = Inl e \<or> (\<exists>x. m = Inr x)" and "Inl e \<in> set ms"
  shows "sequence ms = Inl e"
  using assms
proof (induction ms)
  case Nil
  then show ?case by simp
next
  case (Cons m ms)
  show ?case
  proof (cases m)
    case (Inl e')
    with Cons.prems(1) show ?thesis by simp
  next
    case (Inr x)
    with Cons.prems have "Inl e \<in> set ms" by auto
    with Cons have "sequence ms = Inl e" by simp
    then show ?thesis by (simp add: Inr)
  qed
qed

lemma keys_raise:
  assumes "f \<in> set image_files" and "\<forall>c\<in>set f. \<not> is_digit c"
  shows "sequence (map numeric_suffix image_files) = Inl AttributeError"
proof (rule sequence_first_error)
  show "\<forall>m\<in>set (map numeric_suffix image_files). m = Inl AttributeError \<or> (\<exists>x. m = Inr x)"
    using numeric_suffix_cases by auto
  show "Inl AttributeError \<in> set (map numeric_suffix image_files)"
    using assms numeric_suffix_no_digit[OF assms(2)] by force
qed

text \<open>
  C10. Let the directory exist and hold at least one recognized image file. If one of the
  recognized image files has a name without a decimal digit, the builder raises
  \<open>AttributeError\<close> (the numeric-suffix search is \<open>None\<close> and \<open>.group(1)\<close> is taken of
  it), which is none of the specified error values; so the builder returns a stream only
  if every recognized image file name contains a digit.
\<close>

theorem image_directory_to_dict_needs_digits:
  assumes "fs (rstrip CHR ''/'' input_dir) = Some (Dir names)"
  shows "((\<exists>f\<in>set names. regex_image_pattern_search f \<and> (\<forall>c\<in>set f. \<not> is_digit c)) \<longrightarrow>
            image_directory_to_dict fs ocr input_dir = Inl AttributeError) \<and>
         (\<forall>d. image_directory_to_dict fs ocr input_dir = Inr d \<longrightarrow>
            (\<forall>f\<in>set names. regex_image_pattern_search f \<longrightarrow> (\<exists>c\<in>set f. is_digit c)))"
proof -
  have raise: "image_directory_to_dict fs ocr input_dir = Inl AttributeError"
    if f: "f \<in> set names" "regex_image_pattern_search f" "\<forall>c\<in>set f. \<not> is_digit c" for f
  proof -
    let ?image_files = "filter regex_image_pattern_search names"
    from f have mem: "f \<in> set ?image_files" by simp
    have ne: "?image_files \<noteq> []"
    proof
      assume "?image_files = []"
      with mem show False by (simp only: list.set empty_iff)
    qed
    from keys_raise[OF mem f(3)]
    have "sequence (map numeric_suffix ?image_files) = Inl AttributeError" .
    with ne show ?thesis
      using assms by (simp add: image_directory_to_dict_def Let_def listdir_def)
  qed
  then show ?thesis by fastforce
qed

theorem image_directory_to_dict_needs_digits_witness:
  "image_directory_to_dict demo_fs (\<lambda>n. ''text'') ''../frames/v/time/'' = Inl AttributeError"
proof -
  have dir: "demo_fs (rstrip CHR ''/'' ''../frames/v/time/'') = Some (Dir [''frame_1.jpg'', ''cover.jpg''])"
    by (simp add: demo_fs_def rstrip_def)
  have "regex_image_pattern_search ''cover.jpg''"
    by (simp add: regex_image_pattern_search_def ends_with_def to_lower_def)
  moreover have "\<forall>c\<in>set ''cover.jpg''. \<not> is_digit c"
    by (simp add: is_digit_def)
  ultimately show ?thesis
    using image_directory_to_dict_needs_digits
      [of demo_fs "''../frames/v/time/''" "[''frame_1.jpg'', ''cover.jpg'']" "\<lambda>n. ''text''", OF dir]
    by simp
qed

lemma test_dir_keys:
  "map numeric_suffix [''frame_0.jpg'', ''frame_3.jpg'', ''frame_6.jpg''] = [Inr 0, Inr 3, Inr 6]"
  by code_simp

lemma test_dir_images:
  "filter regex_image_pattern_search [''frame_0.jpg'', ''frame_3.jpg'', ''frame_6.jpg''] =
     [''frame_0.jpg'', ''frame_3.jpg'', ''frame_6.jpg'']"
  by code_simp

lemma test_dir_data_type: "directory_data_type ''frames/010979F/time'' = Inl AttributeError"
  by code_simp

text \<open>
  C9. On the directory the repository's own test passes to the builder,
  \<open>frames/010979F/time\<close>, holding \<open>frame_0.jpg\<close>, \<open>frame_3.jpg\<close> and \<open>frame_6.jpg\<close>, no
  attribute kind is derived: the directory pattern requires the text \<open>../frames/\<close>, the
  search is \<open>None\<close>, and the builder raises \<open>AttributeError\<close> for every OCR engine.
\<close>

theorem image_directory_to_dict_test_directory:
  "image_directory_to_dict test_fs ocr ''frames/010979F/time'' = Inl AttributeError"
proof -
  have dir: "rstrip CHR ''/'' ''frames/010979F/time'' = ''frames/010979F/time''"
    by (simp add: rstrip_def)
  have ls: "listdir test_fs ''frames/010979F/time'' = Inr [''frame_0.jpg'', ''frame_3.jpg'', ''frame_6.jpg'']"
    by (simp add: listdir_def test_fs_def)
  have ex: "test_fs ''frames/010979F/time'' \<noteq> None"
    by (simp add: test_fs_def)
  show ?thesis
    unfolding image_directory_to_dict_def dir Let_def ls bind_Inr test_dir_images test_dir_keys
    using ex by (simp add: test_dir_data_type)
qed

section \<open>The greedy alternative\<close>

lemma first_is_Cons [simp]: "first_is x (y # ys) \<longleftrightarrow> y = x"
  by (simp add: first_is_def)

lemma first_is_Nil [simp]: "\<not> first_is x []"
  by (simp add: first_is_def)

lemma first_is_conv: "first_is x xs \<longleftrightarrow> (\<exists>ys. xs = x # ys)"
  by (cases xs) auto

lemma first_is_concat_map:
  assumes "first_is x xs" and "first_is y (f x)"
  shows "first_is y (concat (map f xs))"
  using assms by (auto simp: first_is_conv)

lemma first_is_map:
  assumes "first_is x xs"
  shows "first_is (f x) (map f xs)"
  using assms by (auto simp: first_is_conv)

lemma reps_top:
  assumes "lo \<le> k"
    and "k = (case hi of None \<Rightarrow> length (takeWhile (in_cls c) s)
              | Some h \<Rightarrow> min h (length (takeWhile (in_cls c) s)))"
  shows "first_is (take k s, drop k s) (reps c lo hi s)"
proof -
  have "rev [lo ..< Suc k] = k # rev [lo ..< k]"
    using assms(1) by simp
  then show ?thesis
    unfolding reps_def Let_def assms(2)[symmetric] by simp
qed

lemma takeWhile_stop:
  assumes "list_all P t" and "r = [] \<or> \<not> P (hd r)"
  shows "takeWhile P (t @ r) = t"
proof -
  have "takeWhile P r = []" using assms(2) by (cases r) auto
  then show ?thesis using assms(1) by (simp add: takeWhile_append2 list_all_iff)
qed

lemma reps_greedy:
  assumes "list_all (in_cls c) t" and "r = [] \<or> \<not> in_cls c (hd r)"
    and "lo \<le> length t" and "case hi of None \<Rightarrow> True | Some h \<Rightarrow> length t \<le> h"
  shows "first_is (t, r) (reps c lo hi (t @ r))"
proof -
  have run: "takeWhile (in_cls c) (t @ r) = t"
    by (rule takeWhile_stop) (rule assms)+
  have "first_is (take (length t) (t @ r), drop (length t) (t @ r)) (reps c lo hi (t @ r))"
    by (rule reps_top) (use assms(3,4) in \<open>auto simp: run split: option.split\<close>)
  then show ?thesis by simp
qed

lemma reps_exact:
  assumes "list_all (in_cls c) t" and "length t = n"
  shows "first_is (t, r) (reps c n (Some n) (t @ r))"
proof -
  have "takeWhile (in_cls c) (t @ r) = t @ takeWhile (in_cls c) r"
    using assms(1) by (simp add: takeWhile_append2 list_all_iff)
  then have "first_is (take n (t @ r), drop n (t @ r)) (reps c n (Some n) (t @ r))"
    by (intro reps_top) (simp_all add: assms(2))
  then show ?thesis by (simp add: assms(2))
qed

lemma reps_run:
  assumes "lo \<le> length (takeWhile (in_cls c) s)"
  shows "first_is (takeWhile (in_cls c) s, dropWhile (in_cls c) s) (reps c lo None s)"
proof -
  let ?k = "length (takeWhile (in_cls c) s)"
  have "first_is (take ?k s, drop ?k s) (reps c lo None s)"
    by (rule reps_top) (simp_all add: assms)
  then show ?thesis by (simp add: takeWhile_eq_take[symmetric] dropWhile_eq_drop[symmetric])
qed

lemma match_atoms_step:
  assumes "first_is (t, r) (reps c lo hi s)" and "first_is (u, r') (match_atoms as r)"
  shows "first_is (t @ u, r') (match_atoms (Rep c lo hi # as) s)"
  unfolding match_atoms.simps
  by (rule first_is_concat_map[OF assms(1)])
    (use first_is_map[OF assms(2), of "\<lambda>(u, y). (t @ u, y)"] in simp)

lemma match_atoms_one:
  assumes "first_is (t, r) (reps c lo hi s)"
  shows "first_is (t, r) (match_atoms [Rep c lo hi] s)"
  using match_atoms_step[OF assms, of "[]" r "[]"] by simp

lemma match_items_Grp_step:
  assumes "first_is (t, r) (match_atoms as s)" and "first_is (gs, r') (match_items p r)"
  shows "first_is (t # gs, r') (match_items (Grp as # p) s)"
  unfolding match_items.simps
  by (rule first_is_concat_map[OF assms(1)])
    (use first_is_map[OF assms(2), of "\<lambda>(gs, y). (t # gs, y)"] in simp)

lemma match_items_Plain_step:
  assumes "first_is (t, r) (match_atoms [a] s)" and "first_is (gs, r') (match_items p r)"
  shows "first_is (gs, r') (match_items (Plain a # p) s)"
  unfolding match_items.simps
  by (rule first_is_concat_map[OF assms(1)]) (use assms(2) in simp)

lemma search_hit:
  assumes "first_is (gs, r) (match_items p s)"
  shows "search p s = Some gs"
  using assms by (cases s) (auto simp: first_is_conv)

lemma search_skip:
  assumes "\<forall>x\<in>set pre. \<not> in_cls c x" and "0 < lo"
  shows "search (Grp (Rep c lo hi # as) # p) (pre @ s) = search (Grp (Rep c lo hi # as) # p) s"
  using assms(1)
proof (induction pre)
  case Nil
  then show ?case by simp
next
  case (Cons x xs)
  then have m: "match_items (Grp (Rep c lo hi # as) # p) (x # xs @ s) = []"
    using assms(2) by (intro match_first_fails) simp_all
  from Cons show ?case unfolding append_Cons search.simps m by simp
qed

lemma grp_exact_step:
  assumes "list_all (in_cls c) t" and "length t = n" and "first_is (gs, r') (match_items p r)"
  shows "first_is (t # gs, r') (match_items (Grp [exactly c n] # p) (t @ r))"
  unfolding exactly_def
  by (rule match_items_Grp_step[OF match_atoms_one[OF reps_exact[OF assms(1,2)]] assms(3)])

lemma plain_star_step:
  assumes "list_all (in_cls c) t" and "r = [] \<or> \<not> in_cls c (hd r)"
    and "first_is (gs, r') (match_items p r)"
  shows "first_is (gs, r') (match_items (Plain (star c) # p) (t @ r))"
  unfolding star_def
  by (rule match_items_Plain_step[OF match_atoms_one[OF reps_greedy[OF assms(1,2)]] assms(3)]) simp_all

section \<open>The timestamp parser\<close>

lemma in_cls_eqs:
  "in_cls Digit = is_digit" "in_cls NonDigit = (\<lambda>c. \<not> is_digit c)"
  "in_cls Space = is_space" "in_cls Alpha = is_alpha"
  by (rule ext, simp)+

lemma digit_not_space: "is_digit c \<Longrightarrow> \<not> is_space c"
  by (auto simp: is_digit_def is_space_def Let_def)

lemma digits_hd:
  assumes "list_all is_digit t" and "0 < length t"
  shows "\<not> in_cls NonDigit (hd (t @ r))" and "\<not> in_cls Space (hd (t @ r))"
  using assms by (cases t; auto dest: digit_not_space)+

lemma timestamp_groups:
  assumes pre: "\<forall>c\<in>set pre. \<not> is_digit c"
    and day: "list_all is_digit day" "length day = 2"
    and month: "list_all is_digit month" "length month = 2"
    and year: "list_all is_digit year" "length year = 4"
    and hour: "list_all is_digit hour" "length hour = 2"
    and minute: "list_all is_digit minute" "length minute = 2"
    and second: "list_all is_digit second" "length second = 2"
    and seps: "list_all (\<lambda>c. \<not> is_digit c) s1" "list_all (\<lambda>c. \<not> is_digit c) s2"
      "list_all is_space ws" "list_all (\<lambda>c. \<not> is_digit c) s3" "list_all (\<lambda>c. \<not> is_digit c) s4"
  shows "search regex_timestamp_pattern
           (pre @ day @ s1 @ month @ s2 @ year @ ws @ hour @ s3 @ minute @ s4 @ second @ post) =
         Some [day, month, year, hour, minute, second]"
proof -
  let ?D = "\<lambda>n. Grp [exactly Digit n]"
  let ?s4a = "takeWhile is_space s4" and ?s4b = "dropWhile is_space s4"
  have s4b: "list_all (in_cls NonDigit) ?s4b"
    using seps(5) by (auto simp: list_all_iff dest: set_dropWhileD)
  have s4a: "list_all (in_cls Space) ?s4a"
    by (auto simp: list_all_iff dest: set_takeWhileD)
  have stop: "?s4b @ second @ post = [] \<or> \<not> in_cls Space (hd (?s4b @ second @ post))"
  proof (cases "?s4b")
    case Nil
    have "\<not> in_cls Space (hd (second @ post))"
      by (rule digits_hd(2)[OF second(1)]) (simp add: second(2))
    then show ?thesis unfolding Nil by simp
  next
    case (Cons x xs)
    then have "\<not> is_space (hd ?s4b)" by (metis hd_dropWhile list.distinct(1))
    then show ?thesis by (simp add: Cons)
  qed
  have 0: "first_is ([], post) (match_items [] post)" by simp
  have 1: "first_is ([second], post) (match_items [?D 2] (second @ post))"
    by (rule grp_exact_step[OF _ second(2) 0]) (simp add: in_cls_eqs second(1))
  have 2: "first_is ([second], post)
      (match_items [Plain (star NonDigit), ?D 2] (?s4b @ second @ post))"
    by (rule plain_star_step[OF s4b _ 1]) (use digits_hd(1)[OF second(1)] second(2) in simp)
  have "first_is ([second], post)
      (match_items [Plain (star Space), Plain (star NonDigit), ?D 2] (?s4a @ ?s4b @ second @ post))"
    by (rule plain_star_step[OF s4a stop 2])
  then have 3: "first_is ([second], post)
      (match_items [Plain (star Space), Plain (star NonDigit), ?D 2] (s4 @ second @ post))"
    by (simp only: append_assoc[symmetric] takeWhile_dropWhile_id)
  have 4: "first_is ([minute, second], post)
      (match_items [?D 2, Plain (star Space), Plain (star NonDigit), ?D 2]
         (minute @ s4 @ second @ post))"
    by (rule grp_exact_step[OF _ minute(2) 3]) (simp add: in_cls_eqs minute(1))
  have 5: "first_is ([minute, second], post)
      (match_items [Plain (star NonDigit), ?D 2, Plain (star Space), Plain (star NonDigit), ?D 2]
         (s3 @ minute @ s4 @ second @ post))"
    by (rule plain_star_step[OF _ _ 4])
      (use seps(4) digits_hd(1)[OF minute(1)] minute(2) in \<open>simp_all add: in_cls_eqs\<close>)
  have 6: "first_is ([hour, minute, second], post)
      (match_items [?D 2, Plain (star NonDigit), ?D 2, Plain (star Space), Plain (star NonDigit), ?D 2]
         (hour @ s3 @ minute @ s4 @ second @ post))"
    by (rule grp_exact_step[OF _ hour(2) 5]) (simp add: in_cls_eqs hour(1))
  have 7: "first_is ([hour, minute, second], post)
      (match_items [Plain (star Space), ?D 2, Plain (star NonDigit), ?D 2, Plain (star Space),
                    Plain (star NonDigit), ?D 2]
         (ws @ hour @ s3 @ minute @ s4 @ second @ post))"
    by (rule plain_star_step[OF _ _ 6])
      (use seps(3) digits_hd(2)[OF hour(1)] hour(2) in \<open>simp_all add: in_cls_eqs\<close>)
  have 8: "first_is ([year, hour, minute, second], post)
      (match_items [?D 4, Plain (star Space), ?D 2, Plain (star NonDigit), ?D 2, Plain (star Space),
                    Plain (star NonDigit), ?D 2]
         (year @ ws @ hour @ s3 @ minute @ s4 @ second @ post))"
    by (rule grp_exact_step[OF _ year(2) 7]) (simp add: in_cls_eqs year(1))
  have 9: "first_is ([year, hour, minute, second], post)
      (match_items [Plain (star NonDigit), ?D 4, Plain (star Space), ?D 2, Plain (star NonDigit), ?D 2,
                    Plain (star Space), Plain (star NonDigit), ?D 2]
         (s2 @ year @ ws @ hour @ s3 @ minute @ s4 @ second @ post))"
    by (rule plain_star_step[OF _ _ 8])
      (use seps(2) digits_hd(1)[OF year(1)] year(2) in \<open>simp_all add: in_cls_eqs\<close>)
  have 10: "first_is ([month, year, hour, minute, second], post)
      (match_items [?D 2, Plain (star NonDigit), ?D 4, Plain (star Space), ?D 2, Plain (star NonDigit),
                    ?D 2, Plain (star Space), Plain (star NonDigit), ?D 2]
         (month @ s2 @ year @ ws @ hour @ s3 @ minute @ s4 @ second @ post))"
    by (rule grp_exact_step[OF _ month(2) 9]) (simp add: in_cls_eqs month(1))
  have 11: "first_is ([month, year, hour, minute, second], post)
      (match_items [Plain (star NonDigit), ?D 2, Plain (star NonDigit), ?D 4, Plain (star Space), ?D 2,
                    Plain (star NonDigit), ?D 2, Plain (star Space), Plain (star NonDigit), ?D 2]
         (s1 @ month @ s2 @ year @ ws @ hour @ s3 @ minute @ s4 @ second @ post))"
    by (rule plain_star_step[OF _ _ 10])
      (use seps(1) digits_hd(1)[OF month(1)] month(2) in \<open>simp_all add: in_cls_eqs\<close>)
  have 12: "first_is ([day, month, year, hour, minute, second], post)
      (match_items regex_timestamp_pattern
         (day @ s1 @ month @ s2 @ year @ ws @ hour @ s3 @ minute @ s4 @ second @ post))"
    unfolding regex_timestamp_pattern_def
    by (rule grp_exact_step[OF _ day(2) 11]) (simp add: in_cls_eqs day(1))
  have "search regex_timestamp_pattern
          (pre @ day @ s1 @ month @ s2 @ year @ ws @ hour @ s3 @ minute @ s4 @ second @ post) =
        search regex_timestamp_pattern
          (day @ s1 @ month @ s2 @ year @ ws @ hour @ s3 @ minute @ s4 @ second @ post)"
    unfolding regex_timestamp_pattern_def exactly_def
    by (rule search_skip) (use pre in \<open>simp_all add: in_cls_eqs\<close>)
  with search_hit[OF 12] show ?thesis by simp
qed

lemma timestamp_total: "\<exists>r. text_to_timestamp t = Inr r"
proof (cases "search regex_timestamp_pattern t")
  case None
  then show ?thesis by (simp add: text_to_timestamp_def)
next
  case (Some gs)
  from search_sound[OF Some] obtain a b c d e f where "gs = [a, b, c, d, e, f]"
    unfolding regex_timestamp_pattern_def groups_of.simps
    by (auto simp: list_all2_Cons1 simp del: atom_ok.simps atoms_ok.simps(2))
  then show ?thesis by (simp add: text_to_timestamp_def Some)
qed

lemma timestamp_example_split:
  "''08-04-2024 11:  04 :13'' =
     [] @ ''08'' @ ''-'' @ ''04'' @ ''-'' @ ''2024'' @ '' '' @ ''11'' @ '':  '' @ ''04'' @ '' :'' @ ''13'' @ []"
  by simp

lemma timestamp_example:
  "text_to_timestamp ''08-04-2024 11:  04 :13'' = Inr ''08-04-2024 11:04:13''"
proof -
  have "search regex_timestamp_pattern ''08-04-2024 11:  04 :13'' =
      Some [''08'', ''04'', ''2024'', ''11'', ''04'', ''13'']"
    unfolding timestamp_example_split
    by (rule timestamp_groups) (simp_all add: is_digit_def is_space_def)
  then show ?thesis by (simp add: text_to_timestamp_def)
qed

text \<open>
  C5 (amended). Let the input be a prefix without digits, then \<open>DD\<close>, \<open>MM\<close>, \<open>YYYY\<close>, \<open>HH\<close>,
  \<open>MM\<close>, \<open>SS\<close> (2, 2, 4, 2, 2 and 2 digits) in this order, then anything, where the
  separators between the fields are arbitrary runs of non-digits, possibly empty, except
  the one between \<open>YYYY\<close> and \<open>HH\<close>, which is white space only. Then the timestamp parser
  returns \<open>DD-MM-YYYY HH:MM:SS\<close>. On no match it returns the input unchanged, and it never
  raises; \<open>08-04-2024 11:  04 :13\<close> gives \<open>08-04-2024 11:04:13\<close>.
\<close>

theorem text_to_timestamp_canonical:
  assumes "\<forall>c\<in>set pre. \<not> is_digit c"
    and "list_all is_digit day" "length day = 2"
    and "list_all is_digit month" "length month = 2"
    and "list_all is_digit year" "length year = 4"
    and "list_all is_digit hour" "length hour = 2"
    and "list_all is_digit minute" "length minute = 2"
    and "list_all is_digit second" "length second = 2"
    and "list_all (\<lambda>c. \<not> is_digit c) s1" "list_all (\<lambda>c. \<not> is_digit c) s2"
      "list_all is_space ws" "list_all (\<lambda>c. \<not> is_digit c) s3" "list_all (\<lambda>c. \<not> is_digit c) s4"
  shows "text_to_timestamp
           (pre @ day @ s1 @ month @ s2 @ year @ ws @ hour @ s3 @ minute @ s4 @ second @ post) =
           Inr (day @ ''-'' @ month @ ''-'' @ year @ '' '' @ hour @ '':'' @ minute @ '':'' @ second) \<and>
         (search regex_timestamp_pattern t = None \<longrightarrow> text_to_timestamp t = Inr t) \<and>
         (\<exists>r. text_to_timestamp t = Inr r) \<and>
         text_to_timestamp ''08-04-2024 11:  04 :13'' = Inr ''08-04-2024 11:04:13''"
proof (intro conjI)
  show "text_to_timestamp
           (pre @ day @ s1 @ month @ s2 @ year @ ws @ hour @ s3 @ minute @ s4 @ second @ post) =
           Inr (day @ ''-'' @ month @ ''-'' @ year @ '' '' @ hour @ '':'' @ minute @ '':'' @ second)"
    unfolding text_to_timestamp_def timestamp_groups[OF assms] by simp
  show "search regex_timestamp_pattern t = None \<longrightarrow> text_to_timestamp t = Inr t"
    by (simp add: text_to_timestamp_def)
  show "\<exists>r. text_to_timestamp t = Inr r"
    by (rule timestamp_total)
  show "text_to_timestamp ''08-04-2024 11:  04 :13'' = Inr ''08-04-2024 11:04:13''"
    by (rule timestamp_example)
qed

theorem text_to_timestamp_canonical_witness:
  "text_to_timestamp ''x 08/04/2024  11.04.13 y'' = Inr ''08-04-2024 11:04:13'' \<and>
   text_to_timestamp ''no time'' = Inr ''no time''"
proof -
  have split: "''x 08/04/2024  11.04.13 y'' =
      ''x '' @ ''08'' @ ''/'' @ ''04'' @ ''/'' @ ''2024'' @ ''  '' @ ''11'' @ ''.'' @ ''04'' @ ''.'' @ ''13'' @ '' y''"
    by simp
  have none: "search regex_timestamp_pattern ''no time'' = None"
    by code_simp
  have "text_to_timestamp
      (''x '' @ ''08'' @ ''/'' @ ''04'' @ ''/'' @ ''2024'' @ ''  '' @ ''11'' @ ''.'' @ ''04'' @ ''.'' @ ''13'' @ '' y'') =
      Inr (''08'' @ ''-'' @ ''04'' @ ''-'' @ ''2024'' @ '' '' @ ''11'' @ '':'' @ ''04'' @ '':'' @ ''13'') \<and>
     (search regex_timestamp_pattern ''no time'' = None \<longrightarrow> text_to_timestamp ''no time'' = Inr ''no time'')"
    using text_to_timestamp_canonical
      [of "''x ''" "''08''" "''04''" "''2024''" "''11''" "''04''" "''13''" "''/''" "''/''" "''  ''" "''.''"
          "''.''" "'' y''" "''no time''"]
    by (simp add: is_digit_def is_space_def)
  with none show ?thesis unfolding split by simp
qed

theorem text_to_timestamp_separator_counterexample:
  "text_to_timestamp ''08-04-2024T11:04:13'' = Inr ''08-04-2024T11:04:13'' \<and>
   text_to_timestamp ''08-04-2024T11:04:13'' \<noteq> Inr ''08-04-2024 11:04:13''"
proof -
  have "text_to_timestamp ''08-04-2024T11:04:13'' = Inr ''08-04-2024T11:04:13''"
    by code_simp
  then show ?thesis by simp
qed

section \<open>The speed parser\<close>

lemma takeWhile_two:
  assumes "\<And>c. P c \<Longrightarrow> Q c"
  shows "takeWhile P x @ takeWhile Q (dropWhile P x) = takeWhile Q x"
  using assms by (induction x) auto

lemma alpha_not_digit: "is_alpha c \<Longrightarrow> \<not> is_digit c"
  by (auto simp: is_alpha_def is_digit_def Let_def)

lemma alpha_not_space: "is_alpha c \<Longrightarrow> \<not> is_space c"
  by (auto simp: is_alpha_def is_space_def Let_def)

lemma alpha_any: "in_cls Alpha c \<Longrightarrow> in_cls AnyChar c"
  by (auto simp: is_alpha_def Let_def)

lemma space_not_digit: "is_space c \<Longrightarrow> \<not> is_digit c"
  using digit_not_space by blast

lemma speed_groups:
  assumes pre: "\<forall>c\<in>set pre. \<not> is_digit c"
    and ds: "list_all is_digit ds" "0 < length ds" "length ds \<le> 3"
    and ws: "list_all is_space ws"
    and u: "list_all is_alpha u" "3 \<le> length u"
  shows "search regex_speed_pattern (pre @ ds @ ws @ u @ rest) =
           Some [ds, takeWhile (\<lambda>c. c \<noteq> CHR 0x0A) (u @ rest)]"
proof -
  let ?x = "u @ rest"
  let ?a = "takeWhile (in_cls Alpha) ?x" and ?x' = "dropWhile (in_cls Alpha) ?x"
  obtain c0 u' where u0: "u = c0 # u'" and c0: "is_alpha c0"
    using u by (cases u) auto
  have "takeWhile (in_cls Alpha) ?x = u @ takeWhile (in_cls Alpha) rest"
    using u(1) by (simp add: takeWhile_append2 list_all_iff)
  then have run: "3 \<le> length ?a" using u(2) by simp
  have 1: "first_is (?a, ?x') (reps Alpha 3 None ?x)"
    by (rule reps_run[OF run])
  have 2: "first_is (takeWhile (in_cls AnyChar) ?x', dropWhile (in_cls AnyChar) ?x')
      (match_atoms [star AnyChar] ?x')"
    unfolding star_def by (rule match_atoms_one[OF reps_run]) simp
  have any: "in_cls AnyChar = (\<lambda>c. c \<noteq> CHR 0x0A)" by (rule ext) simp
  have "?a @ takeWhile (in_cls AnyChar) ?x' = takeWhile (in_cls AnyChar) ?x"
    by (rule takeWhile_two) (rule alpha_any)
  with match_atoms_step[OF 1 2]
  have 3: "first_is (takeWhile (\<lambda>c. c \<noteq> CHR 0x0A) ?x, dropWhile (in_cls AnyChar) ?x')
      (match_atoms [Rep Alpha 3 None, star AnyChar] ?x)"
    by (simp add: any)
  have 4: "first_is ([takeWhile (\<lambda>c. c \<noteq> CHR 0x0A) ?x], dropWhile (in_cls AnyChar) ?x')
      (match_items [Grp [Rep Alpha 3 None, star AnyChar]] ?x)"
    by (rule match_items_Grp_step[OF 3]) simp
  have 5: "first_is ([takeWhile (\<lambda>c. c \<noteq> CHR 0x0A) ?x], dropWhile (in_cls AnyChar) ?x')
      (match_items [Plain (star Space), Grp [Rep Alpha 3 None, star AnyChar]] (ws @ ?x))"
    by (rule plain_star_step[OF _ _ 4])
      (use ws c0 alpha_not_space in \<open>simp_all add: in_cls_eqs u0\<close>)
  have stop: "ws @ ?x = [] \<or> \<not> in_cls Digit (hd (ws @ ?x))"
    using ws c0 by (cases ws) (auto simp: u0 dest: alpha_not_digit space_not_digit)
  have "first_is (ds, ws @ ?x) (reps Digit 1 (Some 3) (ds @ ws @ ?x))"
    by (rule reps_greedy[OF _ stop]) (use ds in \<open>simp_all add: in_cls_eqs Suc_le_eq\<close>)
  from match_items_Grp_step[OF match_atoms_one[OF this] 5]
  have 6: "first_is ([ds, takeWhile (\<lambda>c. c \<noteq> CHR 0x0A) ?x], dropWhile (in_cls AnyChar) ?x')
      (match_items regex_speed_pattern (ds @ ws @ ?x))"
    by (simp add: regex_speed_pattern_def)
  have "search regex_speed_pattern (pre @ ds @ ws @ ?x) = search regex_speed_pattern (ds @ ws @ ?x)"
    unfolding regex_speed_pattern_def
    by (rule search_skip) (use pre in simp_all)
  with search_hit[OF 6] show ?thesis by simp
qed

lemma speed_no_digits:
  assumes "\<forall>c\<in>set t. \<not> is_digit c"
  shows "search regex_speed_pattern t = None"
  unfolding regex_speed_pattern_def
  by (rule search_first_fails) (use assms in simp_all)

lemma speed_example: "text_to_speed ''8   MPH'' = Inr \<lparr>speed = 8, speed_units = ''MPH''\<rparr>"
  by code_simp

text \<open>
  C6 (amended). Let the input be a prefix without digits, then one to three digits, then
  white space (possibly none), then a unit token of at least three letters, then anything.
  Then the speed parser returns the integer read from the digits, and as \<open>speed_units\<close> the
  unit token together with the rest of its line (everything up to the next line feed or the
  end of the input): the unit token alone when it ends the input or the line. On no match,
  and so on every input without a digit, it returns \<open>{speed: 0, speed_units: "MPH"}\<close>;
  \<open>8   MPH\<close> gives \<open>{speed: 8, speed_units: "MPH"}\<close>.
\<close>

theorem text_to_speed_units_to_end_of_line:
  assumes "\<forall>c\<in>set pre. \<not> is_digit c"
    and "list_all is_digit ds" "0 < length ds" "length ds \<le> 3"
    and "list_all is_space ws"
    and "list_all is_alpha u" "3 \<le> length u"
  shows "text_to_speed (pre @ ds @ ws @ u @ rest) =
           Inr \<lparr>speed = int (digits_val ds 0),
                speed_units = takeWhile (\<lambda>c. c \<noteq> CHR 0x0A) (u @ rest)\<rparr> \<and>
         (rest = [] \<or> hd rest = CHR 0x0A \<longrightarrow>
            text_to_speed (pre @ ds @ ws @ u @ rest) =
              Inr \<lparr>speed = int (digits_val ds 0), speed_units = u\<rparr>) \<and>
         (search regex_speed_pattern t = None \<longrightarrow>
            text_to_speed t = Inr \<lparr>speed = 0, speed_units = ''MPH''\<rparr>) \<and>
         ((\<forall>c\<in>set t. \<not> is_digit c) \<longrightarrow> text_to_speed t = Inr \<lparr>speed = 0, speed_units = ''MPH''\<rparr>) \<and>
         text_to_speed ''8   MPH'' = Inr \<lparr>speed = 8, speed_units = ''MPH''\<rparr>"
proof (intro conjI)
  have int: "py_int ds = Inr (int (digits_val ds 0))"
    using assms(2,3) by (intro py_int_digits) auto
  show main: "text_to_speed (pre @ ds @ ws @ u @ rest) =
      Inr \<lparr>speed = int (digits_val ds 0), speed_units = takeWhile (\<lambda>c. c \<noteq> CHR 0x0A) (u @ rest)\<rparr>"
    unfolding text_to_speed_def speed_groups[OF assms] by (simp add: int)
  have nl: "\<forall>c\<in>set u. c \<noteq> CHR 0x0A"
    using assms(6) by (auto simp: list_all_iff is_alpha_def Let_def)
  show "rest = [] \<or> hd rest = CHR 0x0A \<longrightarrow>
      text_to_speed (pre @ ds @ ws @ u @ rest) = Inr \<lparr>speed = int (digits_val ds 0), speed_units = u\<rparr>"
  proof
    assume "rest = [] \<or> hd rest = CHR 0x0A"
    then have "takeWhile (\<lambda>c. c \<noteq> CHR 0x0A) (u @ rest) = u"
      using nl by (intro takeWhile_stop) (auto simp: list_all_iff)
    with main show "text_to_speed (pre @ ds @ ws @ u @ rest) =
        Inr \<lparr>speed = int (digits_val ds 0), speed_units = u\<rparr>"
      by simp
  qed
  show "search regex_speed_pattern t = None \<longrightarrow> text_to_speed t = Inr \<lparr>speed = 0, speed_units = ''MPH''\<rparr>"
    by (simp add: text_to_speed_def)
  show "(\<forall>c\<in>set t. \<not> is_digit c) \<longrightarrow> text_to_speed t = Inr \<lparr>speed = 0, speed_units = ''MPH''\<rparr>"
    by (auto simp: text_to_speed_def dest: speed_no_digits)
  show "text_to_speed ''8   MPH'' = Inr \<lparr>speed = 8, speed_units = ''MPH''\<rparr>"
    by (rule speed_example)
qed

theorem text_to_speed_units_to_end_of_line_witness:
  "text_to_speed ''72 MPH [GPS]'' = Inr \<lparr>speed = 72, speed_units = ''MPH [GPS]''\<rparr> \<and>
   text_to_speed ''MPH'' = Inr \<lparr>speed = 0, speed_units = ''MPH''\<rparr>"
proof -
  have split: "''72 MPH [GPS]'' = [] @ ''72'' @ '' '' @ ''MPH'' @ '' [GPS]''" by simp
  have none: "\<forall>c\<in>set ''MPH''. \<not> is_digit c" by (simp add: is_digit_def)
  have "text_to_speed ([] @ ''72'' @ '' '' @ ''MPH'' @ '' [GPS]'') =
      Inr \<lparr>speed = int (digits_val ''72'' 0),
           speed_units = takeWhile (\<lambda>c. c \<noteq> CHR 0x0A) (''MPH'' @ '' [GPS]'')\<rparr> \<and>
     ((\<forall>c\<in>set ''MPH''. \<not> is_digit c) \<longrightarrow> text_to_speed ''MPH'' = Inr \<lparr>speed = 0, speed_units = ''MPH''\<rparr>)"
    using text_to_speed_units_to_end_of_line
      [of "[]" "''72''" "'' ''" "''MPH''" "'' [GPS]''" "''MPH''"]
    by (simp add: is_digit_def is_space_def is_alpha_def)
  with none show ?thesis unfolding split by simp
qed

theorem text_to_speed_unit_token_counterexample:
  "text_to_speed ''8 MPH now'' = Inr \<lparr>speed = 8, speed_units = ''MPH now''\<rparr> \<and>
   text_to_speed ''8 MPH now'' \<noteq> Inr \<lparr>speed = 8, speed_units = ''MPH''\<rparr>"
proof -
  have "text_to_speed ''8 MPH now'' = Inr \<lparr>speed = 8, speed_units = ''MPH now''\<rparr>"
    by code_simp
  then show ?thesis by simp
qed

section \<open>The record assembler\<close>

lemma sequence_all_Inr:
  assumes "\<forall>m\<in>set ms. \<exists>x. m = Inr x"
  shows "\<exists>xs. sequence ms = Inr xs \<and> length xs = length ms"
  using assms
proof (induction ms)
  case Nil
  then show ?case by simp
next
  case (Cons m ms)
  then obtain x xs where "m = Inr x" "sequence ms = Inr xs" "length xs = length ms"
    by auto
  then show ?case by simp
qed

lemma join_idx_set:
  "set (join_idx l r) = {(i, j). i < length l \<and> j < length r \<and> l ! i = r ! j}"
  by (auto simp: join_idx_def)

lemma join_keys:
  assumes "set ps = set (join_idx l r)"
  shows "set (map (\<lambda>i. l ! i) (map fst ps)) = set l \<inter> set r"
proof
  show "set (map (\<lambda>i. l ! i) (map fst ps)) \<subseteq> set l \<inter> set r"
    by (auto simp: assms join_idx_set) (metis nth_mem)
  show "set l \<inter> set r \<subseteq> set (map (\<lambda>i. l ! i) (map fst ps))"
  proof
    fix k assume "k \<in> set l \<inter> set r"
    then obtain i j where "i < length l" "l ! i = k" "j < length r" "r ! j = k"
      by (auto simp: in_set_conv_nth)
    then have "(i, j) \<in> set ps" by (simp add: assms join_idx_set)
    then have "l ! fst (i, j) \<in> (\<lambda>p. l ! fst p) ` set ps" by (rule imageI)
    then show "k \<in> set (map (\<lambda>i. l ! i) (map fst ps))"
      using \<open>l ! i = k\<close> by (simp add: image_image)
  qed
qed

lemma int_series_Inr:
  assumes "int_series xs = Inr c"
  shows "(xs = [] \<and> c = NullCol) \<or> (xs \<noteq> [] \<and> c = IntCol xs)"
  using assms by (auto simp: int_series_def split: if_splits)

lemma int_series_ok:
  assumes "xs \<noteq> []" and "\<forall>x\<in>set xs. in_int64 x"
  shows "int_series xs = Inr (IntCol xs)"
  using assms by (simp add: int_series_def list_all_iff)

lemma ints_of_Inr: "ints_of c = Inr xs \<Longrightarrow> c = IntCol xs"
  by (cases c) (simp_all add: ints_of_def)

lemma join_frame_index:
  assumes "left = (''frame_index'', IntCol lk) # lcols"
    and "right = (''frame_index'', IntCol rk) # rcols"
  shows "\<exists>cols. join row_order left right ''frame_index'' =
           Inr ((''frame_index'', IntCol (map (\<lambda>i. lk ! i) (map fst (row_order (join_idx lk rk))))) # cols)"
  unfolding assms by (simp add: join_def get_col_def ints_of_def Let_def)

lemma join_frame_index_Inr:
  assumes "join row_order ((''frame_index'', lc) # lcols) ((''frame_index'', rc) # rcols) ''frame_index'' = Inr j"
  shows "\<exists>lk rk cols. lc = IntCol lk \<and> rc = IntCol rk \<and>
           j = (''frame_index'', IntCol (map (\<lambda>i. lk ! i) (map fst (row_order (join_idx lk rk))))) # cols"
proof -
  from assms obtain lk rk where lk: "ints_of lc = Inr lk" and rk: "ints_of rc = Inr rk"
    by (auto simp: join_def get_col_def bind_eq_Inr)
  then have c: "lc = IntCol lk" "rc = IntCol rk" by (auto dest: ints_of_Inr)
  from join_frame_index[OF refl refl, of row_order lk lcols rk rcols] assms
  show ?thesis unfolding c by auto
qed

lemma dict_to_dataframe_rows:
  assumes order: "\<forall>ps. set (row_order ps) = set ps"
    and df: "dict_to_dataframe row_order time_dict gps_dict speed_dict = Inr df"
  shows "\<exists>rows. get_col df ''frame_index'' = Inr (IntCol rows) \<and>
           (\<forall>k. k \<in> set rows \<longleftrightarrow>
              k \<in> fst ` set time_dict \<and> k \<in> fst ` set gps_dict \<and> k \<in> fst ` set speed_dict)"
  using df unfolding dict_to_dataframe_def Let_def bind_eq_Inr
proof (elim exE conjE)
  fix ts tc gs gc vs sc speeds j
  assume tc: "int_series (map fst time_dict) = Inr tc"
    and gc: "int_series (map fst gps_dict) = Inr gc"
    and sc: "int_series (map fst speed_dict) = Inr sc"
    and j: "join row_order [(''frame_index'', tc), (''timestamp'', str_series ts)]
          [(''frame_index'', gc), (''latitude'', float_series (map latitude gs)),
           (''longitude'', float_series (map longitude gs))] ''frame_index'' = Inr j"
    and d: "join row_order j [(''frame_index'', sc), (''speed'', speeds),
          (''speed_units'', str_series (map speed_units vs))] ''frame_index'' = Inr df"
  from join_frame_index_Inr[OF j] obtain tk gk cols1 where
    c1: "tc = IntCol tk" "gc = IntCol gk" and
    j1: "j = (''frame_index'', IntCol (map (\<lambda>i. tk ! i) (map fst (row_order (join_idx tk gk))))) # cols1"
    by blast
  let ?k1 = "map (\<lambda>i. tk ! i) (map fst (row_order (join_idx tk gk)))"
  from join_frame_index_Inr[OF d[unfolded j1]] obtain sk cols2 where
    c2: "sc = IntCol sk" and
    d1: "df = (''frame_index'', IntCol (map (\<lambda>i. ?k1 ! i) (map fst (row_order (join_idx ?k1 sk))))) # cols2"
    by auto
  let ?k2 = "map (\<lambda>i. ?k1 ! i) (map fst (row_order (join_idx ?k1 sk)))"
  from int_series_Inr[OF tc] int_series_Inr[OF gc] int_series_Inr[OF sc] c1 c2
  have keys: "tk = map fst time_dict" "gk = map fst gps_dict" "sk = map fst speed_dict"
    by auto
  have "set ?k1 = set tk \<inter> set gk" by (rule join_keys) (simp add: order)
  moreover have "set ?k2 = set ?k1 \<inter> set sk" by (rule join_keys) (simp add: order)
  ultimately have "set ?k2 = set tk \<inter> set gk \<inter> set sk" by simp
  then have "\<forall>k. k \<in> set ?k2 \<longleftrightarrow>
      k \<in> fst ` set time_dict \<and> k \<in> fst ` set gps_dict \<and> k \<in> fst ` set speed_dict"
    unfolding keys by auto
  moreover have "get_col df ''frame_index'' = Inr (IntCol ?k2)"
    unfolding d1 by (simp add: get_col_def)
  ultimately show ?thesis by blast
qed

lemma dict_to_dataframe_returns:
  assumes ne: "time_dict \<noteq> []" "gps_dict \<noteq> []" "speed_dict \<noteq> []"
    and kinds: "\<forall>e\<in>snd ` set time_dict. \<exists>t. e = Time t" "\<forall>e\<in>snd ` set gps_dict. \<exists>g. e = Gps g"
      "\<forall>e\<in>snd ` set speed_dict. \<exists>v. e = Speed v \<and> in_int64 (speed v)"
    and keys: "\<forall>k\<in>fst ` set time_dict. in_int64 k" "\<forall>k\<in>fst ` set gps_dict. in_int64 k"
      "\<forall>k\<in>fst ` set speed_dict. in_int64 k"
  shows "\<exists>df. dict_to_dataframe row_order time_dict gps_dict speed_dict = Inr df"
proof -
  let ?tk = "map fst time_dict" and ?gk = "map fst gps_dict" and ?sk = "map fst speed_dict"
  have "\<forall>m\<in>set (map (entry_time \<circ> snd) time_dict). \<exists>x. m = Inr x"
    using kinds(1) by (auto simp: entry_time_def)
  from sequence_all_Inr[OF this] obtain ts where
    ts: "sequence (map (entry_time \<circ> snd) time_dict) = Inr ts" by blast
  have "\<forall>m\<in>set (map (entry_gps \<circ> snd) gps_dict). \<exists>x. m = Inr x"
    using kinds(2) by (auto simp: entry_gps_def)
  from sequence_all_Inr[OF this] obtain gs where
    gs: "sequence (map (entry_gps \<circ> snd) gps_dict) = Inr gs" by blast
  have "\<forall>m\<in>set (map (entry_speed \<circ> snd) speed_dict). \<exists>x. m = Inr x"
    using kinds(3) by (auto simp: entry_speed_def)
  from sequence_all_Inr[OF this] obtain vs where
    vs: "sequence (map (entry_speed \<circ> snd) speed_dict) = Inr vs"
    and len: "length vs = length (map (entry_speed \<circ> snd) speed_dict)" by blast
  have vs_eq: "map Inr vs = map (entry_speed \<circ> snd) speed_dict"
    using vs
  proof (induction speed_dict arbitrary: vs)
    case Nil
    then show ?case by simp
  next
    case (Cons p ps)
    then show ?case by (auto simp: bind_eq_Inr)
  qed
  have "\<forall>v\<in>set vs. in_int64 (speed v)"
  proof
    fix v assume "v \<in> set vs"
    then have "Inr v \<in> set (map (entry_speed \<circ> snd) speed_dict)"
      unfolding vs_eq[symmetric] by simp
    then obtain p where p: "p \<in> set speed_dict" "entry_speed (snd p) = Inr v" by auto
    from p(1) kinds(3) obtain w where "snd p = Speed w" "in_int64 (speed w)" by auto
    with p(2) show "in_int64 (speed v)" by (simp add: entry_speed_def)
  qed
  moreover have "vs \<noteq> []" using len ne(3) by auto
  ultimately have sp: "int_series (map speed vs) = Inr (IntCol (map speed vs))"
    by (intro int_series_ok) auto
  have tk: "int_series ?tk = Inr (IntCol ?tk)" using ne(1) keys(1) by (intro int_series_ok) auto
  have gk: "int_series ?gk = Inr (IntCol ?gk)" using ne(2) keys(2) by (intro int_series_ok) auto
  have sk: "int_series ?sk = Inr (IntCol ?sk)" using ne(3) keys(3) by (intro int_series_ok) auto
  let ?k1 = "map (\<lambda>i. ?tk ! i) (map fst (row_order (join_idx ?tk ?gk)))"
  from join_frame_index[OF refl refl] obtain cols1 where
    j1: "join row_order [(''frame_index'', IntCol ?tk), (''timestamp'', str_series ts)]
           [(''frame_index'', IntCol ?gk), (''latitude'', float_series (map latitude gs)),
            (''longitude'', float_series (map longitude gs))] ''frame_index'' =
         Inr ((''frame_index'', IntCol ?k1) # cols1)"
    by blast
  from join_frame_index[OF refl refl] obtain cols2 where
    j2: "join row_order ((''frame_index'', IntCol ?k1) # cols1)
           [(''frame_index'', IntCol ?sk), (''speed'', IntCol (map speed vs)),
            (''speed_units'', str_series (map speed_units vs))] ''frame_index'' =
         Inr ((''frame_index'', IntCol (map (\<lambda>i. ?k1 ! i) (map fst (row_order (join_idx ?k1 ?sk))))) # cols2)"
    by blast
  show ?thesis
    unfolding dict_to_dataframe_def ts gs vs tk gk sk sp bind_Inr Let_def j1 j2 by blast
qed

text \<open>
  C1. For every three attribute streams, in whatever order polars returns the rows of a
  join, a data frame returned by the record assembler has a row of frame index \<open>k\<close> if and
  only if \<open>k\<close> is a key of all three streams: an index missing from one stream has no row.
  The assembler does return a data frame when the three streams are not empty, each entry
  is of the kind of its stream, and the frame indices and speeds fit in 64 bits.
\<close>

theorem dict_to_dataframe_inner_join:
  assumes "\<forall>ps. set (row_order ps) = set ps"
  shows "(\<forall>df. dict_to_dataframe row_order time_dict gps_dict speed_dict = Inr df \<longrightarrow>
            (\<exists>rows. get_col df ''frame_index'' = Inr (IntCol rows) \<and>
               (\<forall>k. k \<in> set rows \<longleftrightarrow>
                  k \<in> fst ` set time_dict \<and> k \<in> fst ` set gps_dict \<and> k \<in> fst ` set speed_dict))) \<and>
         (time_dict \<noteq> [] \<and> gps_dict \<noteq> [] \<and> speed_dict \<noteq> [] \<and>
          (\<forall>e\<in>snd ` set time_dict. \<exists>t. e = Time t) \<and>
          (\<forall>e\<in>snd ` set gps_dict. \<exists>g. e = Gps g) \<and>
          (\<forall>e\<in>snd ` set speed_dict. \<exists>v. e = Speed v \<and> in_int64 (speed v)) \<and>
          (\<forall>k\<in>fst ` set time_dict. in_int64 k) \<and> (\<forall>k\<in>fst ` set gps_dict. in_int64 k) \<and>
          (\<forall>k\<in>fst ` set speed_dict. in_int64 k) \<longrightarrow>
          (\<exists>df. dict_to_dataframe row_order time_dict gps_dict speed_dict = Inr df))"
proof (intro conjI allI impI)
  fix df
  assume "dict_to_dataframe row_order time_dict gps_dict speed_dict = Inr df"
  then show "\<exists>rows. get_col df ''frame_index'' = Inr (IntCol rows) \<and>
      (\<forall>k. k \<in> set rows \<longleftrightarrow>
         k \<in> fst ` set time_dict \<and> k \<in> fst ` set gps_dict \<and> k \<in> fst ` set speed_dict)"
    by (rule dict_to_dataframe_rows[OF assms])
next
  assume h: "time_dict \<noteq> [] \<and> gps_dict \<noteq> [] \<and> speed_dict \<noteq> [] \<and>
          (\<forall>e\<in>snd ` set time_dict. \<exists>t. e = Time t) \<and>
          (\<forall>e\<in>snd ` set gps_dict. \<exists>g. e = Gps g) \<and>
          (\<forall>e\<in>snd ` set speed_dict. \<exists>v. e = Speed v \<and> in_int64 (speed v)) \<and>
          (\<forall>k\<in>fst ` set time_dict. in_int64 k) \<and> (\<forall>k\<in>fst ` set gps_dict. in_int64 k) \<and>
          (\<forall>k\<in>fst ` set speed_dict. in_int64 k)"
  show "\<exists>df. dict_to_dataframe row_order time_dict gps_dict speed_dict = Inr df"
    using h by (elim conjE) (rule dict_to_dataframe_returns)
qed

theorem dict_to_dataframe_inner_join_witness:
  "\<exists>df rows. dict_to_dataframe rev [(0, Time ''a''), (3, Time ''b''), (6, Time ''c'')]
       [(3, Gps \<lparr>latitude = 1, longitude = 2\<rparr>), (0, Gps \<lparr>latitude = 3, longitude = 4\<rparr>)]
       [(0, Speed \<lparr>speed = 8, speed_units = ''MPH''\<rparr>), (9, Speed \<lparr>speed = 9, speed_units = ''MPH''\<rparr>)] = Inr df \<and>
     get_col df ''frame_index'' = Inr (IntCol rows) \<and> set rows = {0}"
proof -
  let ?t = "[(0::int, Time ''a''), (3, Time ''b''), (6, Time ''c'')]"
  let ?g = "[(3::int, Gps \<lparr>latitude = 1, longitude = 2\<rparr>), (0, Gps \<lparr>latitude = 3, longitude = 4\<rparr>)]"
  let ?s = "[(0::int, Speed \<lparr>speed = 8, speed_units = ''MPH''\<rparr>), (9, Speed \<lparr>speed = 9, speed_units = ''MPH''\<rparr>)]"
  have order: "\<forall>ps::(nat \<times> nat) list. set (rev ps) = set ps" by simp
  note inst = dict_to_dataframe_inner_join[OF order, of ?t ?g ?s]
  have "?t \<noteq> [] \<and> ?g \<noteq> [] \<and> ?s \<noteq> [] \<and>
          (\<forall>e\<in>snd ` set ?t. \<exists>t. e = Time t) \<and>
          (\<forall>e\<in>snd ` set ?g. \<exists>g. e = Gps g) \<and>
          (\<forall>e\<in>snd ` set ?s. \<exists>v. e = Speed v \<and> in_int64 (speed v)) \<and>
          (\<forall>k\<in>fst ` set ?t. in_int64 k) \<and> (\<forall>k\<in>fst ` set ?g. in_int64 k) \<and>
          (\<forall>k\<in>fst ` set ?s. in_int64 k)"
    by (simp add: in_int64_def)
  from inst[THEN conjunct2, THEN mp, OF this]
  have "\<exists>df. dict_to_dataframe rev ?t ?g ?s = Inr df" .
  then obtain df where df: "dict_to_dataframe rev ?t ?g ?s = Inr df" ..
  with inst obtain rows where col: "get_col df ''frame_index'' = Inr (IntCol rows)"
    and rows: "\<forall>k. k \<in> set rows \<longleftrightarrow> k \<in> fst ` set ?t \<and> k \<in> fst ` set ?g \<and> k \<in> fst ` set ?s"
    by blast
  from rows have "set rows = {0}" by auto
  with df col show ?thesis by blast
qed

section \<open>Data frame operations\<close>

lemma get_col_with_column:
  "get_col (with_column n c df) m = (if m = n then Inr c else get_col df m)"
  by (simp add: get_col_def with_column_def update_conv')

lemma get_col_delete:
  "get_col (AList.delete n df) m = (if m = n then Inl (ColumnNotFoundError m) else get_col df m)"
  by (simp add: get_col_def delete_conv')

lemma in_columns: "n \<in> set (columns df) \<longleftrightarrow> (\<exists>c. get_col df n = Inr c)"
proof -
  have "n \<in> set (columns df) \<longleftrightarrow> map_of df n \<noteq> None"
    by (simp add: columns_def map_of_eq_None_iff)
  then show ?thesis by (auto simp: get_col_def split: option.splits)
qed

lemma drop_col_present:
  assumes "get_col df n = Inr c"
  shows "drop_col n df = Inr (AList.delete n df)"
  using assms in_columns[of n df] by (simp add: drop_col_def)

lemma drop_col_Inr:
  assumes "drop_col n df = Inr df'"
  shows "df' = AList.delete n df"
  using assms by (simp add: drop_col_def split: if_splits)

lemma update_values: "snd ` set (AList.update k v al) \<subseteq> insert v (snd ` set al)"
  by (induction al) auto

lemma height_rect:
  assumes "df \<noteq> []" and "\<forall>c\<in>snd ` set df. col_len c = n"
  shows "height df = n"
  using assms by (cases df) (auto simp: height_def)

lemma with_column_rect:
  assumes "\<forall>c\<in>snd ` set df. col_len c = n" and "col_len c = n"
  shows "\<forall>c'\<in>snd ` set (with_column k c df). col_len c' = n"
  using assms update_values[of k c df] unfolding with_column_def by blast

lemma with_column_nonempty: "with_column k c df \<noteq> []"
  by (cases df) (simp_all add: with_column_def)

section \<open>The reindexer\<close>

lemma length_diff [simp]: "length (diff xs) = length xs"
  by (cases xs) simp_all

lemma length_diff_int64 [simp]: "length (diff_int64 xs) = length xs"
  by (simp add: diff_int64_def)

lemma length_fill_null [simp]: "length (fill_null v xs) = length xs"
  by (simp add: fill_null_def)

lemma py_range_multiples:
  assumes "i \<noteq> 0"
  shows "py_range 0 (i * int h) i = Inr (map (\<lambda>k. int k * i) [0 ..< h])"
proof (cases "i > 0")
  case True
  have "(i * int h + i - 1) div i = int h"
  proof -
    have "i * int h + i - 1 = (i - 1) + int h * i" by (simp add: algebra_simps)
    also have "\<dots> div i = (i - 1) div i + int h"
      using True by (subst div_mult_self1) simp_all
    also have "(i - 1) div i = 0" using True by (simp add: div_pos_pos_trivial)
    finally show ?thesis by simp
  qed
  then show ?thesis using True by (simp add: py_range_def)
next
  case False
  with assms have neg: "i < 0" by simp
  let ?j = "- i"
  have "(0 - i * int h - i - 1) div (- i) = int h"
  proof -
    have "0 - i * int h - i - 1 = (?j - 1) + int h * ?j" by (simp add: algebra_simps)
    also have "\<dots> div ?j = (?j - 1) div ?j + int h"
      using neg by (subst div_mult_self1) simp_all
    also have "(?j - 1) div ?j = 0" using neg by (simp add: div_pos_pos_trivial)
    finally show ?thesis by simp
  qed
  then show ?thesis using neg by (simp add: py_range_def)
qed

lemma multiples_increasing:
  assumes "0 < (i::int)"
  shows "sorted_wrt (<) (map (\<lambda>k. int k * i) [0 ..< h])"
proof -
  have "sorted_wrt (\<lambda>x y. int x * i < int y * i) [0 ..< h]"
    by (rule sorted_wrt_mono_rel[OF _ sorted_wrt_upt]) (use assms in simp)
  then show ?thesis by (simp add: sorted_wrt_map)
qed

lemma fold_max_ge: "a \<le> fold max ys (a::nat)"
  by (induction ys arbitrary: a) (auto intro: order_trans[OF max.cobounded2])

lemma fold_max_mem: "y \<in> set ys \<Longrightarrow> y \<le> fold max ys (a::nat)"
proof (induction ys arbitrary: a)
  case Nil
  then show ?case by simp
next
  case (Cons z zs)
  show ?case
  proof (cases "y = z")
    case True
    have "y \<le> max z a" by (simp add: True)
    also have "\<dots> \<le> fold max zs (max z a)" by (rule fold_max_ge)
    finally show ?thesis by simp
  next
    case False
    with Cons show ?thesis by simp
  qed
qed

lemma modes_most_frequent:
  assumes "v \<in> set (modes xs)"
  shows "v \<in> set xs \<and> (\<forall>w. count_list xs w \<le> count_list xs v)"
proof -
  let ?top = "fold max (map (count_list xs) xs) 0"
  from assms have v: "v \<in> set xs" "count_list xs v = ?top"
    by (auto simp: modes_def Let_def)
  have "count_list xs w \<le> ?top" for w
  proof (cases "w \<in> set xs")
    case True
    then show ?thesis by (intro fold_max_mem) simp
  next
    case False
    then show ?thesis by (simp add: count_list_0_iff)
  qed
  with v show ?thesis by simp
qed

lemma modes_Nil: "modes [] = []"
  by (simp add: modes_def)

lemma first_mode_Inr:
  assumes "first_mode tie xs = Inr m"
  shows "xs \<noteq> [] \<and> m = tie (modes xs)"
  using assms modes_Nil by (auto simp: first_mode_def split: if_splits)

lemma multiples_in_int64:
  assumes "0 < i" and "(int n - 1) * i < 9223372036854775808"
  shows "\<forall>x\<in>set (map (\<lambda>k. int k * i) [0 ..< n]). in_int64 x"
proof
  fix x assume "x \<in> set (map (\<lambda>k. int k * i) [0 ..< n])"
  then obtain k where k: "k < n" and x: "x = int k * i" by auto
  from k have "int k \<le> int n - 1" by simp
  then have "int k * i \<le> (int n - 1) * i"
    using assms(1) by (intro mult_right_mono) simp_all
  moreover have "0 \<le> int k * i" using assms(1) by simp
  ultimately show "in_int64 x" using assms(2) by (simp add: in_int64_def x)
qed

lemma reindex_result:
  assumes col: "get_col df ''frame_index'' = Inr (IntCol frame_index)"
    and rect: "\<forall>c\<in>snd ` set df. col_len c = length frame_index"
    and mode: "first_mode tie (fill_null 0 (diff_int64 frame_index)) = Inr interval"
    and pos: "0 < interval"
    and fits: "(int (length frame_index) - 1) * interval < 9223372036854775808"
  shows "reindex tie df =
           Inr (AList.delete ''frame_index'' (AList.delete ''frame_delta''
             (with_column ''new_index'' (IntCol (map (\<lambda>k. int k * interval) [0 ..< length frame_index]))
               (with_column ''frame_delta'' (IntCol (fill_null 0 (diff_int64 frame_index))) df))))"
proof -
  let ?ds = "fill_null 0 (diff_int64 frame_index)"
  let ?new = "map (\<lambda>k. int k * interval) [0 ..< length frame_index]"
  let ?df1 = "with_column ''frame_delta'' (IntCol ?ds) df"
  let ?df2 = "with_column ''new_index'' (IntCol ?new) ?df1"
  let ?df3 = "AList.delete ''frame_delta'' ?df2"
  from pos have nz: "interval \<noteq> 0" by simp
  have "height ?df1 = length frame_index"
    by (rule height_rect[OF with_column_nonempty with_column_rect[OF rect]]) simp
  then have range: "py_range 0 (interval * int (height ?df1)) interval = Inr ?new"
    using py_range_multiples[OF nz] by simp
  from first_mode_Inr[OF mode] have "length (fill_null 0 (diff_int64 frame_index)) \<noteq> 0"
    by (simp del: length_fill_null length_diff_int64)
  then have "frame_index \<noteq> []" by simp
  then have "?new \<noteq> []" by simp
  then have series: "int_series ?new = Inr (IntCol ?new)"
    by (rule int_series_ok) (rule multiples_in_int64[OF pos fits])
  have "get_col ?df2 ''frame_delta'' = Inr (IntCol ?ds)"
    by (simp add: get_col_with_column)
  then have d1: "drop_col ''frame_delta'' ?df2 = Inr ?df3"
    by (rule drop_col_present)
  have "get_col ?df3 ''frame_index'' = Inr (IntCol frame_index)"
    by (simp add: get_col_delete get_col_with_column col)
  then have d2: "drop_col ''frame_index'' ?df3 = Inr (AList.delete ''frame_index'' ?df3)"
    by (rule drop_col_present)
  show ?thesis
    unfolding reindex_def col bind_Inr ints_of_def column.case Let_def mode range series d1 d2 ..
qed

lemma reindex_overflow:
  assumes col: "get_col df ''frame_index'' = Inr (IntCol frame_index)"
    and rect: "\<forall>c\<in>snd ` set df. col_len c = length frame_index"
    and mode: "first_mode tie (fill_null 0 (diff_int64 frame_index)) = Inr interval"
    and pos: "0 < interval"
    and big: "\<not> (int (length frame_index) - 1) * interval < 9223372036854775808"
  shows "reindex tie df = Inl OverflowError"
proof -
  let ?n = "length frame_index"
  let ?ds = "fill_null 0 (diff_int64 frame_index)"
  let ?new = "map (\<lambda>k. int k * interval) [0 ..< ?n]"
  let ?df1 = "with_column ''frame_delta'' (IntCol ?ds) df"
  from pos have nz: "interval \<noteq> 0" by simp
  have "height ?df1 = ?n"
    by (rule height_rect[OF with_column_nonempty with_column_rect[OF rect]]) simp
  then have range: "py_range 0 (interval * int (height ?df1)) interval = Inr ?new"
    using py_range_multiples[OF nz] by simp
  from first_mode_Inr[OF mode] have "length (fill_null 0 (diff_int64 frame_index)) \<noteq> 0"
    by (simp del: length_fill_null length_diff_int64)
  then have ne: "frame_index \<noteq> []" by simp
  then have "?n - 1 < ?n" by simp
  then have "?n - 1 \<in> set [0 ..< ?n]" by simp
  then have "int (?n - 1) * interval \<in> (\<lambda>k. int k * interval) ` set [0 ..< ?n]" by (rule imageI)
  then have "int (?n - 1) * interval \<in> set ?new" by (simp only: set_map)
  moreover have "int (?n - 1) = int ?n - 1" using ne by (simp add: of_nat_diff Suc_leI)
  ultimately have "(int ?n - 1) * interval \<in> set ?new" by simp
  moreover have "\<not> in_int64 ((int ?n - 1) * interval)" using big by (simp add: in_int64_def)
  ultimately have "\<not> list_all in_int64 ?new" unfolding list_all_iff by blast
  moreover have "?new \<noteq> []" using ne by simp
  ultimately have series: "int_series ?new = Inl OverflowError"
    by (simp add: int_series_def)
  show ?thesis
    unfolding reindex_def col bind_Inr ints_of_def column.case Let_def mode range series bind_Inl ..
qed

lemma trip_frame_index: "get_col trip_df ''frame_index'' = Inr (IntCol [0, 3, 6, 10, 13])"
  by (simp add: trip_df_def get_col_def)

lemma trip_rect: "\<forall>c\<in>snd ` set trip_df. col_len c = length [0, 3, 6, 10, 13 :: int]"
  by (simp add: trip_df_def)

lemma trip_modes: "modes (fill_null 0 (diff_int64 [0, 3, 6, 10, 13])) = [3]"
  by code_simp

text \<open>
  C2 (amended). Take the differences of \<open>frame_index\<close> from its predecessor, in the 64-bit
  integer column and with the first row's null difference filled with 0, and let
  \<open>interval\<close> be their mode as polars returns it (a most frequent value whenever the choice
  among tied values picks one of them). If \<open>interval\<close> is positive and the last new index,
  \<open>(n - 1) * interval\<close> for \<open>n\<close> rows, fits in 64 bits, the reindexer replaces \<open>frame_index\<close>
  by the strictly increasing sequence \<open>0, interval, 2 * interval, ...\<close> of the length of the
  input, and neither \<open>frame_index\<close> nor the difference column remains; if the last new index
  does not fit, it raises \<open>OverflowError\<close>. In particular the indices \<open>[0, 3, 6, 10, 13]\<close>
  give \<open>[0, 3, 6, 9, 12]\<close>.
\<close>

theorem reindex_positive_interval:
  assumes "get_col df ''frame_index'' = Inr (IntCol frame_index)"
    and "\<forall>c\<in>snd ` set df. col_len c = length frame_index"
    and "first_mode tie (fill_null 0 (diff_int64 frame_index)) = Inr interval"
    and "0 < interval"
  shows "((int (length frame_index) - 1) * interval < 9223372036854775808 \<longrightarrow>
          (\<exists>df' new_index.
             reindex tie df = Inr df' \<and>
             get_col df' ''new_index'' = Inr (IntCol new_index) \<and>
             new_index = map (\<lambda>k. int k * interval) [0 ..< length frame_index] \<and>
             sorted_wrt (<) new_index \<and> length new_index = length frame_index \<and>
             get_col df' ''frame_index'' = Inl (ColumnNotFoundError ''frame_index'') \<and>
             get_col df' ''frame_delta'' = Inl (ColumnNotFoundError ''frame_delta''))) \<and>
         (\<not> (int (length frame_index) - 1) * interval < 9223372036854775808 \<longrightarrow>
            reindex tie df = Inl OverflowError) \<and>
         (tie (modes (fill_null 0 (diff_int64 frame_index))) \<in> set (modes (fill_null 0 (diff_int64 frame_index))) \<longrightarrow>
            (\<forall>w. count_list (fill_null 0 (diff_int64 frame_index)) w
                    \<le> count_list (fill_null 0 (diff_int64 frame_index)) interval)) \<and>
         (tie [3] = 3 \<longrightarrow>
            (\<exists>df''. reindex tie trip_df = Inr df'' \<and>
                     get_col df'' ''new_index'' = Inr (IntCol [0, 3, 6, 9, 12])))"
proof (intro conjI impI)
  let ?ds = "fill_null 0 (diff_int64 frame_index)"
  let ?new = "map (\<lambda>k. int k * interval) [0 ..< length frame_index]"
  {
    assume fits: "(int (length frame_index) - 1) * interval < 9223372036854775808"
    note r = reindex_result[OF assms fits]
    have 1: "get_col (AList.delete ''frame_index'' (AList.delete ''frame_delta''
               (with_column ''new_index'' (IntCol ?new) (with_column ''frame_delta'' (IntCol ?ds) df))))
               ''new_index'' = Inr (IntCol ?new)"
      by (simp add: get_col_delete get_col_with_column)
    have 2: "sorted_wrt (<) ?new" by (rule multiples_increasing[OF assms(4)])
    show "\<exists>df' new_index.
             reindex tie df = Inr df' \<and>
             get_col df' ''new_index'' = Inr (IntCol new_index) \<and>
             new_index = map (\<lambda>k. int k * interval) [0 ..< length frame_index] \<and>
             sorted_wrt (<) new_index \<and> length new_index = length frame_index \<and>
             get_col df' ''frame_index'' = Inl (ColumnNotFoundError ''frame_index'') \<and>
             get_col df' ''frame_delta'' = Inl (ColumnNotFoundError ''frame_delta'')"
      unfolding r using 1 2 by (simp add: get_col_delete)
  }
  {
    assume "\<not> (int (length frame_index) - 1) * interval < 9223372036854775808"
    then show "reindex tie df = Inl OverflowError"
      by (rule reindex_overflow[OF assms])
  }
  {
    assume "tie (modes ?ds) \<in> set (modes ?ds)"
    moreover from first_mode_Inr[OF assms(3)] have "interval = tie (modes ?ds)" by simp
    ultimately show "\<forall>w. count_list ?ds w \<le> count_list ?ds interval"
      using modes_most_frequent by simp
  }
  {
    assume tie: "tie [3] = 3"
    have f: "first_mode tie (fill_null 0 (diff_int64 [0, 3, 6, 10, 13])) = Inr 3"
      by (simp only: first_mode_def trip_modes tie) simp
    have pos3: "(0::int) < 3" by simp
    have fits3: "(int (length [0, 3, 6, 10, 13 :: int]) - 1) * 3 < 9223372036854775808" by simp
    show "\<exists>df''. reindex tie trip_df = Inr df'' \<and> get_col df'' ''new_index'' = Inr (IntCol [0, 3, 6, 9, 12])"
      unfolding reindex_result[OF trip_frame_index trip_rect f pos3 fits3]
      by (simp add: get_col_delete get_col_with_column upt_rec)
  }
qed

theorem reindex_positive_interval_witness:
  "\<exists>df'. reindex hd trip_df = Inr df' \<and> get_col df' ''new_index'' = Inr (IntCol [0, 3, 6, 9, 12]) \<and>
     get_col df' ''frame_index'' = Inl (ColumnNotFoundError ''frame_index'')"
proof -
  have f: "first_mode hd (fill_null 0 (diff_int64 [0, 3, 6, 10, 13])) = Inr 3"
    by (simp only: first_mode_def trip_modes) simp
  have pos3: "(0::int) < 3" by simp
  have fits3: "(int (length [0, 3, 6, 10, 13 :: int]) - 1) * 3 < 9223372036854775808" by simp
  have n: "map (\<lambda>k. int k * 3) [0 ..< length [0, 3, 6, 10, 13 :: int]] = [0, 3, 6, 9, 12]"
    by (simp add: upt_rec)
  from reindex_positive_interval[OF trip_frame_index trip_rect f pos3, THEN conjunct1, THEN mp, OF fits3]
  show ?thesis unfolding n by auto
qed

theorem reindex_single_row_counterexample:
  "reindex hd one_row_df = Inl ValueError"
  by code_simp

end
